theory Spec2Isabelle
  imports Main "HOL-Library.Word"
begin

unbundle bit_operations_syntax

section \<open>Machine state of the RF bridge firmware\<close>

text \<open>
  The firmware (\<^verbatim>\<open>src/avr/rf_bridge_common.c\<close>) keeps everything in 8-bit globals and in
  the locals of its coroutines, which live on their own stacks and survive every yield.
  All of it is one record. A pulse slot \<^verbatim>\<open>pulse[i]\<close> is the pair
  \<open>(pulse[i][0], pulse[i][1])\<close>: low-phase ticks first, high-phase ticks second.
\<close>

type_synonym u8 = "8 word"

type_synonym pulse_t = "u8 \<times> u8"

datatype rstate =
    state_SyncSearch
  | state_Decoding_ASK
  | state_Decoding_OOK
  | state_Decoding_Manchester
  | state_DecodeRawPulses
  | state_DecodeDone
  | state_ReceivingCommand

datatype tmode = mode_Idle | mode_Receiving | mode_StartTransmit | mode_Transmitting

record fw =
  running_state :: rstate
  display_pulses :: bool
  display_stacks :: bool
  tickcount :: u8
  pulse :: "u8 \<Rightarrow> pulse_t"
  current_pulse :: u8
  msg_start :: u8
  msg_end :: u8
  transceiver_mode :: tmode
  TIMSK0 :: u8
  pin_Antenna :: bool
  pin_Transmitter :: bool
  rx_bit :: bool
  tx_bit :: bool
  tx_tp :: pulse_t
  syncduration :: u8
  chk :: u8
  byte :: u8
  bcount :: u8
  decoded :: bool
  uart_out :: string
  ss_pi :: u8
  ss_syncstart :: u8
  ss_synclen :: u8
  ss_manchester :: u8
  rc_state :: u8
  rc_err :: u8
  rc_b :: u8
  rc_byte :: u8
  rc_chk :: u8
  rc_msg_type :: u8
  tx_armed :: nat

text \<open>
  \<open>rx_bit\<close> is the static \<^verbatim>\<open>bit\<close> of the compare-A handler; \<open>tx_bit\<close> and \<open>tx_tp\<close> are the
  statics \<^verbatim>\<open>bit\<close> and \<^verbatim>\<open>tp\<close> of the compare-B handler. The \<open>ss_\<close> fields are the locals of
  \<^verbatim>\<open>cr_syncsearch\<close>, the \<open>rc_\<close> fields those of \<^verbatim>\<open>cr_receive_cmd\<close> (its \<^verbatim>\<open>chk\<close> and
  \<^verbatim>\<open>byte\<close> shadow the globals). \<open>uart_out\<close> collects what \<^verbatim>\<open>printf_P\<close> and
  \<^verbatim>\<open>uart_putchar\<close> send. \<open>tx_armed\<close> is an observer only: it counts how often
  \<^verbatim>\<open>enable_transmitter\<close> armed the compare-B interrupt.
\<close>

definition reset_state :: fw where
  "reset_state = \<lparr>
     running_state = state_SyncSearch, display_pulses = False, display_stacks = False,
     tickcount = 0, pulse = (\<lambda>_. (0, 0)), current_pulse = 0, msg_start = 0, msg_end = 0,
     transceiver_mode = mode_Receiving, TIMSK0 = 0, pin_Antenna = False,
     pin_Transmitter = False, rx_bit = False, tx_bit = False, tx_tp = (0, 0),
     syncduration = 0, chk = 0, byte = 0, bcount = 0, decoded = False, uart_out = [],
     ss_pi = 0, ss_syncstart = 0, ss_synclen = 0, ss_manchester = 0,
     rc_state = 0, rc_err = 0, rc_b = 0, rc_byte = 0, rc_chk = 0, rc_msg_type = 0,
     tx_armed = 0 \<rparr>"

definition pget :: "pulse_t \<Rightarrow> bool \<Rightarrow> u8" where
  "pget p i = (if i then snd p else fst p)"

definition pset :: "pulse_t \<Rightarrow> bool \<Rightarrow> u8 \<Rightarrow> pulse_t" where
  "pset p i v = (if i then (fst p, v) else (v, snd p))"

section \<open>Duration and cursor arithmetic\<close>

text \<open>\<^verbatim>\<open>abs_sub\<close> and \<^verbatim>\<open>ovf_sub\<close>, lines 221-227. The operands are promoted to \<^verbatim>\<open>int\<close>,
  the result is cut to 8 bits on return.\<close>

definition abs_sub :: "u8 \<Rightarrow> u8 \<Rightarrow> u8" where
  "abs_sub v1 v2 = (if v1 > v2 then word_of_int (uint v1 - uint v2)
                    else word_of_int (uint v2 - uint v1))"

definition ovf_sub :: "u8 \<Rightarrow> u8 \<Rightarrow> u8" where
  "ovf_sub v1 v2 = (if v1 > v2 then word_of_int (255 - uint v1 + uint v2)
                    else word_of_int (uint v2 - uint v1))"

section \<open>Transceiver state\<close>

text \<open>
  Lines 110-137. The bit numbers \<^verbatim>\<open>OCIE0A\<close> and \<^verbatim>\<open>OCIE0B\<close> come from \<^verbatim>\<open><avr/io.h>\<close>, which
  is not part of the repository: they are the parameters \<open>oa\<close> and \<open>ob\<close>. Each transition
  is given statement by statement, as the list of the states it passes through; the
  transition itself ends in the last of them.
\<close>

definition timer_mask :: "nat \<Rightarrow> nat \<Rightarrow> u8" where
  "timer_mask oa ob = push_bit oa 1 OR push_bit ob 1"

definition disable_transceiver_steps :: "nat \<Rightarrow> nat \<Rightarrow> fw \<Rightarrow> fw list" where
  "disable_transceiver_steps oa ob s =
     (let s1 = s\<lparr>transceiver_mode := mode_Idle\<rparr>;
          s2 = s1\<lparr>pin_Antenna := False\<rparr>;
          s3 = s2\<lparr>TIMSK0 := TIMSK0 s2 AND NOT (timer_mask oa ob)\<rparr>
      in [s1, s2, s3])"

definition enable_receiver_steps :: "nat \<Rightarrow> nat \<Rightarrow> fw \<Rightarrow> fw list" where
  "enable_receiver_steps oa ob s =
     (if TIMSK0 s AND timer_mask oa ob = push_bit oa 1 then [s]
      else
        let s1 = s\<lparr>TIMSK0 := TIMSK0 s AND NOT (timer_mask oa ob)\<rparr>;
            s2 = s1\<lparr>pin_Antenna := False\<rparr>;
            s3 = s2\<lparr>transceiver_mode := mode_Receiving\<rparr>;
            s4 = s3\<lparr>TIMSK0 := TIMSK0 s3 OR push_bit oa 1\<rparr>
        in [s1, s2, s3, s4])"

definition enable_transmitter_steps :: "nat \<Rightarrow> nat \<Rightarrow> fw \<Rightarrow> fw list" where
  "enable_transmitter_steps oa ob s =
     (if TIMSK0 s AND timer_mask oa ob = push_bit ob 1 then [s]
      else
        let s1 = s\<lparr>TIMSK0 := TIMSK0 s AND NOT (push_bit oa 1 OR push_bit ob 1)\<rparr>;
            s2 = s1\<lparr>pin_Antenna := True\<rparr>;
            s3 = s2\<lparr>transceiver_mode := mode_StartTransmit\<rparr>;
            s4 = s3\<lparr>TIMSK0 := TIMSK0 s3 OR push_bit ob 1, tx_armed := Suc (tx_armed s3)\<rparr>
        in [s1, s2, s3, s4])"

definition disable_transceiver :: "nat \<Rightarrow> nat \<Rightarrow> fw \<Rightarrow> fw" where
  "disable_transceiver oa ob s = last (disable_transceiver_steps oa ob s)"

definition enable_receiver :: "nat \<Rightarrow> nat \<Rightarrow> fw \<Rightarrow> fw" where
  "enable_receiver oa ob s = last (enable_receiver_steps oa ob s)"

definition enable_transmitter :: "nat \<Rightarrow> nat \<Rightarrow> fw \<Rightarrow> fw" where
  "enable_transmitter oa ob s = last (enable_transmitter_steps oa ob s)"

datatype transition = Enable_receiver | Enable_transmitter | Disable_transceiver

fun transition_steps :: "nat \<Rightarrow> nat \<Rightarrow> transition \<Rightarrow> fw \<Rightarrow> fw list" where
  "transition_steps oa ob Enable_receiver s = enable_receiver_steps oa ob s"
| "transition_steps oa ob Enable_transmitter s = enable_transmitter_steps oa ob s"
| "transition_steps oa ob Disable_transceiver s = disable_transceiver_steps oa ob s"

text \<open>Every state the machine is in while a sequence of transitions runs from \<open>s\<close>.\<close>

fun visited :: "nat \<Rightarrow> nat \<Rightarrow> fw \<Rightarrow> transition list \<Rightarrow> fw list" where
  "visited oa ob s [] = [s]"
| "visited oa ob s (t # ts) =
     s # transition_steps oa ob t s @ visited oa ob (last (transition_steps oa ob t s)) ts"

definition both_armed :: "nat \<Rightarrow> nat \<Rightarrow> fw \<Rightarrow> bool" where
  "both_armed oa ob s = (bit (TIMSK0 s) oa \<and> bit (TIMSK0 s) ob)"

section \<open>Pulse sampler\<close>

text \<open>
  The compare-A handler, lines 146-176. \<open>b\<close> is the level read from the receiver pin.
  \<open>phase_tick\<close> is its first statement, the increment of the phase counter; the handler
  is that increment followed by the edge logic.
\<close>

definition MAX_TICKS_PER_PHASE :: u8 where
  "MAX_TICKS_PER_PHASE = 255"

definition phase_tick :: "bool \<Rightarrow> fw \<Rightarrow> fw" where
  "phase_tick b s =
     (let c = current_pulse s; p = pulse s c
      in if pget p b < MAX_TICKS_PER_PHASE
         then s\<lparr>pulse := (pulse s)(c := pset p b (pget p b + 1))\<rparr>
         else s)"

definition rising_edge :: "fw \<Rightarrow> fw" where
  "rising_edge s =
     (let p = pulse s (current_pulse s);
          s1 = (if fst p > 20 \<or> snd p > 20
                then s\<lparr>current_pulse := current_pulse s + 1\<rparr> else s)
      in s1\<lparr>pulse := (pulse s1)(current_pulse s1 := (0, 0))\<rparr>)"

definition TIMER0_COMPA_vect :: "bool \<Rightarrow> fw \<Rightarrow> fw" where
  "TIMER0_COMPA_vect b s =
     (let s1 = phase_tick b s;
          s2 = (if \<not> rx_bit s1 \<and> b then rising_edge s1 else s1)
      in s2\<lparr>rx_bit := b, tickcount := tickcount s2 + 1\<rparr>)"

section \<open>Serial output\<close>

text \<open>
  The conversions of \<^verbatim>\<open>printf_P\<close> the firmware uses, on an unsigned 8-bit argument:
  \<^verbatim>\<open>%02x\<close> pads the lower-case hexadecimal digits with zeros to two characters, \<^verbatim>\<open>%0x\<close> has
  the zero flag but no width and pads nothing, \<^verbatim>\<open>%d\<close> prints decimal digits.
\<close>

definition hexchar :: "nat \<Rightarrow> char" where
  "hexchar n = ''0123456789abcdef'' ! (n mod 16)"

fun hex_digits :: "nat \<Rightarrow> string" where
  "hex_digits n = (if n < 16 then [hexchar n] else hex_digits (n div 16) @ [hexchar (n mod 16)])"

fun dec_digits :: "nat \<Rightarrow> string" where
  "dec_digits n = (if n < 10 then [hexchar n] else dec_digits (n div 10) @ [hexchar (n mod 10)])"

declare hex_digits.simps [simp del] dec_digits.simps [simp del]

definition zero_pad :: "nat \<Rightarrow> string \<Rightarrow> string" where
  "zero_pad w ds = replicate (w - length ds) (CHR ''0'') @ ds"

definition printf_02x :: "u8 \<Rightarrow> string" where
  "printf_02x v = zero_pad 2 (hex_digits (unat v))"

definition printf_0x :: "u8 \<Rightarrow> string" where
  "printf_0x v = zero_pad 0 (hex_digits (unat v))"

definition printf_d :: "u8 \<Rightarrow> string" where
  "printf_d v = dec_digits (unat v)"

definition put :: "string \<Rightarrow> fw \<Rightarrow> fw" where
  "put str s = s\<lparr>uart_out := uart_out s @ str\<rparr>"

section \<open>Line emitter\<close>

text \<open>\<^verbatim>\<open>stuffbit\<close>, lines 242-251.\<close>

definition stuffbit :: "u8 \<Rightarrow> u8 \<Rightarrow> fw \<Rightarrow> fw" where
  "stuffbit b last_bit s =
     (let bn = bcount s mod 8;
          s1 = s\<lparr>byte := byte s OR push_bit (7 - unat bn) b\<rparr>;
          s2 = s1\<lparr>bcount := bcount s1 + 1\<rparr>
      in if last_bit \<noteq> 0 \<or> bn = 7
         then (let s3 = s2\<lparr>chk := chk s2 + byte s2\<rparr>;
                   s4 = put (printf_02x (byte s3)) s3
               in s4\<lparr>byte := 0\<rparr>)
         else s2)"

text \<open>The \<^verbatim>\<open>state_DecodeDone\<close> case of the main loop, lines 973-981.\<close>

definition decode_done :: "fw \<Rightarrow> fw" where
  "decode_done s =
     (let s1 = s\<lparr>chk := chk s + bcount s\<rparr>;
          s2 = s1\<lparr>chk := chk s1 + syncduration s1\<rparr>;
          s3 = (if bcount s2 \<noteq> 0
                then put (''#'' @ printf_02x (bcount s2) @ ''!'' @ printf_0x (syncduration s2) @
                          ''*'' @ printf_02x (chk s2) @ [CHR 0x0A]) s2
                else s2)
      in s3\<lparr>running_state := state_SyncSearch, msg_end := 0\<rparr>)"

section \<open>Decoders\<close>

text \<open>
  A decoder reads the ring from \<^verbatim>\<open>msg_start\<close> towards the sampler's cursor and yields
  whenever it has caught up. Here it is given the slots it reads, in order, as a list;
  \<open>None\<close> says that the list ended while the decoder was still waiting for the sampler.

  The lock-in loops of the three decoders have one shape: count pulses that pass a test,
  up to a limit, and stop at the first that fails.
\<close>

definition as_flag :: "bool \<Rightarrow> u8" where
  "as_flag c = (if c then 1 else 0)"

fun lockin :: "(pulse_t \<Rightarrow> bool) \<Rightarrow> u8 \<Rightarrow> pulse_t list \<Rightarrow> u8 \<Rightarrow> u8 \<Rightarrow> (u8 \<times> u8) option" where
  "lockin ok limit [] pcount pi = (if pcount < limit then None else Some (pcount, pi))"
| "lockin ok limit (p # ps) pcount pi =
     (if pcount < limit
      then (if ok p then lockin ok limit ps (pcount + 1) (pi + 1) else Some (pcount, pi))
      else Some (pcount, pi))"

text \<open>\<^verbatim>\<open>cr_decode_ask\<close>, lines 436-492.\<close>

fun ask_inner :: "pulse_t list \<Rightarrow> u8 \<Rightarrow> fw \<Rightarrow> (u8 \<times> fw) option" where
  "ask_inner [] pi s = (if msg_end s \<noteq> 0 then Some (pi, s) else None)"
| "ask_inner (p # ps) pi s =
     (if msg_end s \<noteq> 0 then Some (pi, s)
      else
        let b = as_flag (snd p > fst p);
            s1 = s\<lparr>msg_end := as_flag (fst p \<ge> MAX_TICKS_PER_PHASE)\<rparr>;
            s2 = stuffbit b (msg_end s1) s1
        in ask_inner ps (pi + 1) s2)"

definition cr_decode_ask :: "pulse_t list \<Rightarrow> fw \<Rightarrow> fw option" where
  "cr_decode_ask ps s =
     (case lockin (\<lambda>p. abs_sub (fst p + snd p) (syncduration s) \<le> 8) 20 ps 0 (msg_start s) of
        None \<Rightarrow> None
      | Some (pcount, pi) \<Rightarrow>
          if pcount < 20
          then Some (s\<lparr>decoded := False, msg_start := pi, running_state := state_SyncSearch\<rparr>)
          else
            (case ps of
               [] \<Rightarrow> None
             | _ \<Rightarrow>
                (case ask_inner ps (msg_start s) (put ''MA:'' (s\<lparr>decoded := True\<rparr>)) of
                   None \<Rightarrow> None
                 | Some (pi', s') \<Rightarrow>
                     Some (s'\<lparr>running_state := state_DecodeDone, msg_start := pi'\<rparr>))))"

text \<open>\<^verbatim>\<open>cr_decode_ook\<close>, lines 499-559, and the test its lock-in shares with the Manchester
  decoder.\<close>

definition near_sync :: "u8 \<Rightarrow> u8 \<Rightarrow> pulse_t \<Rightarrow> bool" where
  "near_sync sd margin p =
     (abs_sub (fst p) sd \<le> margin \<or> abs_sub (snd p) sd \<le> margin \<or>
      abs_sub (fst p) (sd div 2) \<le> margin \<or> abs_sub (snd p) (sd div 2) \<le> margin)"

fun ook_inner :: "u8 \<Rightarrow> pulse_t list \<Rightarrow> u8 \<Rightarrow> fw \<Rightarrow> (u8 \<times> fw) option" where
  "ook_inner margin [] pi s = (if msg_end s \<noteq> 0 then Some (pi, s) else None)"
| "ook_inner margin (p # ps) pi s =
     (if msg_end s \<noteq> 0 then Some (pi, s)
      else
        let s1 = s\<lparr>msg_end := as_flag (fst p \<ge> MAX_TICKS_PER_PHASE)\<rparr>;
            s2 = (if abs_sub (fst p) (syncduration s1) \<le> margin
                  then stuffbit 0 (msg_end s1) s1 else s1);
            s3 = (if abs_sub (snd p) (syncduration s2) \<le> margin
                  then stuffbit 1 (msg_end s2) s2 else s2)
        in ook_inner margin ps (pi + 1) s3)"

definition cr_decode_ook :: "pulse_t list \<Rightarrow> fw \<Rightarrow> fw option" where
  "cr_decode_ook ps s =
     (let margin = syncduration s div 8 in
      case lockin (near_sync (syncduration s) margin) 20 ps 0 (msg_start s) of
        None \<Rightarrow> None
      | Some (pcount, pi) \<Rightarrow>
          if pcount < 20
          then Some (s\<lparr>decoded := False, msg_start := pi, running_state := state_SyncSearch\<rparr>)
          else
            (case ps of
               [] \<Rightarrow> None
             | _ \<Rightarrow>
                (case ook_inner margin ps (msg_start s) (put ''MO:'' (s\<lparr>decoded := True\<rparr>)) of
                   None \<Rightarrow> None
                 | Some (pi', s') \<Rightarrow>
                     Some (s'\<lparr>running_state := state_DecodeDone, msg_start := pi'\<rparr>))))"

text \<open>
  \<^verbatim>\<open>cr_decode_manchester\<close>, lines 565-648. Its locals \<^verbatim>\<open>bit\<close>, \<^verbatim>\<open>phase\<close>, \<^verbatim>\<open>demiclock\<close> and
  \<^verbatim>\<open>stuffclock\<close> are a record. The inner loop takes one half pulse per round. The outer
  loop tests \<^verbatim>\<open>bcount < 0xd0\<close> only when the inner loop has left, that is at the end of
  the message or when the decoder has caught up with the sampler: the input is the list
  of the batches of slots the decoder finds each time it wakes up.
\<close>

record manch =
  m_bit :: u8
  m_phase :: bool
  m_demiclock :: u8
  m_stuffclock :: u8

definition man_stuff :: "manch \<times> fw \<Rightarrow> manch \<times> fw" where
  "man_stuff ms =
     (let m = fst ms; s = snd ms in
      if m_stuffclock m \<noteq> m_demiclock m
      then (let s1 = (if m_stuffclock m AND 1 \<noteq> 0 then stuffbit (m_bit m) (msg_end s) s else s)
            in (m\<lparr>m_stuffclock := m_stuffclock m + 1\<rparr>, s1))
      else (m, s))"

definition man_half :: "u8 \<Rightarrow> pulse_t \<Rightarrow> manch \<times> fw \<Rightarrow> manch \<times> fw" where
  "man_half margin p ms =
     (let s1 = (snd ms)\<lparr>msg_end := as_flag (fst p \<ge> MAX_TICKS_PER_PHASE)\<rparr>;
          (m2, s2) = man_stuff (fst ms, s1);
          m3 = (if abs_sub (pget p (m_phase m2)) (syncduration s2) < margin
                then m2\<lparr>m_bit := as_flag (m_phase m2), m_demiclock := m_demiclock m2 + 1\<rparr>
                else m2);
          m4 = m3\<lparr>m_demiclock := m_demiclock m3 + 1\<rparr>
      in man_stuff (m4, s2))"

function man_inner :: "u8 \<Rightarrow> pulse_t list \<Rightarrow> u8 \<Rightarrow> manch \<times> fw \<Rightarrow> u8 \<times> manch \<times> fw" where
  "man_inner margin [] pi ms = (pi, ms)"
| "man_inner margin (p # ps) pi ms =
     (if msg_end (snd ms) \<noteq> 0 then (pi, ms)
      else
        let (m1, s1) = man_half margin p ms
        in if \<not> m_phase m1
           then man_inner margin ps (pi + 1) (m1\<lparr>m_phase := \<not> m_phase m1\<rparr>, s1)
           else man_inner margin (p # ps) pi (m1\<lparr>m_phase := \<not> m_phase m1\<rparr>, s1))"
  by pat_completeness auto

lemma man_stuff_phase: "m_phase (fst (man_stuff ms)) = m_phase (fst ms)"
  by (simp add: man_stuff_def Let_def)

lemma man_half_phase: "m_phase (fst (man_half margin p ms)) = m_phase (fst ms)"
  by (simp add: man_half_def Let_def case_prod_beta man_stuff_phase)

termination man_inner
proof (relation "measure (\<lambda>(margin, ps, pi, ms). 2 * length ps + (if m_phase (fst ms) then 1 else 0))",
    goal_cases)
  case 1
  show ?case by simp
next
  case (2 margin p ps pi ms x m1 s1)
  then show ?case by simp
next
  case (3 margin p ps pi ms x m1 s1)
  from 3 have "m1 = fst (man_half margin p ms)"
    by (metis fst_conv)
  then have "m_phase (fst ms) = m_phase m1"
    by (simp add: man_half_phase)
  with 3 show ?case by simp
qed

fun man_emit :: "u8 \<Rightarrow> pulse_t list list \<Rightarrow> u8 \<Rightarrow> manch \<times> fw \<Rightarrow> (u8 \<times> fw) option" where
  "man_emit margin [] pi ms = None"
| "man_emit margin ([] # cs) pi ms = man_emit margin cs pi ms"
| "man_emit margin (c # cs) pi ms =
     (let (pi', ms') = man_inner margin c pi ms
      in if msg_end (snd ms') = 0 \<and> bcount (snd ms') < 0xd0
         then man_emit margin cs pi' ms'
         else Some (pi', snd ms'))"

definition cr_decode_manchester :: "pulse_t list list \<Rightarrow> fw \<Rightarrow> fw option" where
  "cr_decode_manchester cs s =
     (let margin = syncduration s div 4 in
      case lockin (near_sync (syncduration s) margin) 32 (concat cs) 0 (msg_start s) of
        None \<Rightarrow> None
      | Some (pcount, pi) \<Rightarrow>
          if pcount < 32
          then Some (s\<lparr>decoded := False, msg_start := pi, running_state := state_SyncSearch\<rparr>)
          else
            (case man_emit margin cs (msg_start s)
                    (\<lparr>m_bit = 0, m_phase = True, m_demiclock = 0, m_stuffclock = 0\<rparr>,
                     put ''MM:'' (s\<lparr>decoded := True\<rparr>)) of
               None \<Rightarrow> None
             | Some (pi', s') \<Rightarrow>
                 Some (s'\<lparr>running_state := state_DecodeDone, msg_start := pi'\<rparr>)))"

text \<open>\<^verbatim>\<open>cr_decode_pulses\<close>, lines 654-676.\<close>

fun pulses_inner :: "pulse_t list \<Rightarrow> u8 \<Rightarrow> fw \<Rightarrow> (u8 \<times> fw) option" where
  "pulses_inner [] pi s = (if msg_end s \<noteq> 0 then Some (pi, s) else None)"
| "pulses_inner (p # ps) pi s =
     (if msg_end s \<noteq> 0 then Some (pi, s)
      else
        let s1 = s\<lparr>msg_end := as_flag (fst p \<ge> MAX_TICKS_PER_PHASE)\<rparr>;
            s2 = put (printf_02x (snd p) @ printf_02x (fst p)) s1;
            s3 = s2\<lparr>chk := chk s2 + (snd p + fst p)\<rparr>;
            s4 = s3\<lparr>bcount := bcount s3 + 1\<rparr>
        in pulses_inner ps (pi + 1) s4)"

definition cr_decode_pulses :: "pulse_t list \<Rightarrow> fw \<Rightarrow> fw option" where
  "cr_decode_pulses ps s =
     (case ps of
        [] \<Rightarrow> None
      | _ \<Rightarrow>
         (case pulses_inner ps (msg_start s) (put ''MP:'' s) of
            None \<Rightarrow> None
          | Some (pi', s') \<Rightarrow> Some (s'\<lparr>msg_start := pi', running_state := state_DecodeDone\<rparr>)))"

text \<open>
  The dispatch of the main loop (lines 956-985) on the four decoding states: it resumes
  the decoder the running state names.
\<close>

definition resume_decoder :: "pulse_t list list \<Rightarrow> fw \<Rightarrow> fw option" where
  "resume_decoder cs s =
     (case running_state s of
        state_Decoding_ASK \<Rightarrow> cr_decode_ask (concat cs) s
      | state_Decoding_OOK \<Rightarrow> cr_decode_ook (concat cs) s
      | state_Decoding_Manchester \<Rightarrow> cr_decode_manchester cs s
      | state_DecodeRawPulses \<Rightarrow> cr_decode_pulses (concat cs) s
      | _ \<Rightarrow> None)"

section \<open>Sync searcher\<close>

text \<open>
  The body of the inner loop of \<^verbatim>\<open>cr_syncsearch\<close>, lines 277-312, for the slot \<open>p\<close> at
  the cursor \<^verbatim>\<open>pi\<close>. The cycle duration \<^verbatim>\<open>d\<close> is a \<^verbatim>\<open>uint16_t\<close>, a 16-bit word that is
  cut to 8 bits where it is passed to \<^verbatim>\<open>abs_sub\<close> or stored. With avr-gcc \<^verbatim>\<open>int\<close> has 16
  bits, so \<^verbatim>\<open>d - syncduration\<close> and the comparisons with \<^verbatim>\<open>d / 8\<close> are unsigned 16-bit
  operations.
\<close>

definition SYNC_LEN :: u8 where
  "SYNC_LEN = 8"

definition normalize_shape :: "u8 \<Rightarrow> pulse_t \<Rightarrow> u8 \<times> u8 \<times> 16 word" where
  "normalize_shape sd p =
     (let p0 = fst p; p1 = snd p; d = (ucast p0 + ucast p1 :: 16 word) in
      if d > 0x70 then
        (if ucast (abs_sub (p0 div 2) p1) < d div 8
         then (p0 div 2, p1, ucast (p0 div 2) + ucast p1)
         else if ucast (abs_sub p0 (p1 div 2)) < d div 8
         then (p0, p1 div 2, ucast p0 + ucast (p1 div 2))
         else if ucast (abs_sub (ucast (d div 2)) sd) < d div 16
         then (p0 div 2, p1 div 2, d div 2)
         else (p0, p1, d))
      else (p0, p1, d))"

definition sync_step :: "pulse_t \<Rightarrow> fw \<Rightarrow> fw" where
  "sync_step p s =
     (let (p0, p1, d) = normalize_shape (syncduration s) p;
          s1 = (if d < 0x20 \<or> abs_sub (ucast d) (syncduration s) > 8
                then s\<lparr>ss_syncstart := ss_pi s, syncduration := ucast d,
                       ss_synclen := 0, ss_manchester := 0\<rparr>
                else
                  let s2 = (if ucast (abs_sub p1 p0) < d div 8
                            then s\<lparr>ss_manchester := ss_manchester s + 1\<rparr> else s);
                      s3 = s2\<lparr>syncduration := syncduration s2 +
                              ucast ((d - ucast (syncduration s2)) div 2)\<rparr>
                  in s3\<lparr>ss_synclen := ss_synclen s3 + 1\<rparr>)
      in s1\<lparr>ss_pi := ss_pi s1 + 1\<rparr>)"

fun sync_scan :: "pulse_t list \<Rightarrow> fw \<Rightarrow> fw" where
  "sync_scan [] s = s"
| "sync_scan (p # ps) s = (if ss_synclen s < SYNC_LEN then sync_scan ps (sync_step p s) else s)"

text \<open>The choice of the decoder once eight pulses are accepted, lines 315-326, and the
  initialisation of the decoders, lines 329-336.\<close>

definition choose_decoder :: "fw \<Rightarrow> rstate" where
  "choose_decoder s =
     (if display_pulses s then state_DecodeRawPulses
      else if syncduration s > 0x80 then state_Decoding_OOK
      else if ss_manchester s > 4 then state_Decoding_Manchester
      else state_Decoding_ASK)"

definition init_decoders :: "rstate \<Rightarrow> fw \<Rightarrow> fw" where
  "init_decoders newstate s =
     s\<lparr>msg_start := ss_syncstart s, chk := 0x55, bcount := 0, byte := 0, msg_end := 0,
       decoded := False, running_state := newstate\<rparr>"

definition sync_finish :: "fw \<Rightarrow> fw" where
  "sync_finish s =
     (let s1 = s\<lparr>ss_synclen := 0, ss_manchester := 0, syncduration := 0\<rparr>;
          s2 = s1\<lparr>ss_pi := msg_start s1\<rparr>
      in s2\<lparr>ss_syncstart := ss_pi s2 + 1\<rparr>)"

text \<open>
  One pass of the searcher and of the decoder it starts over the ring as it stands, the
  sampler at rest: \<open>ring_slots s c\<close> are the slots from the cursor \<open>c\<close> up to the
  sampler's. \<open>decode_round\<close> is what the main loop does until the running state is
  \<^verbatim>\<open>state_SyncSearch\<close> again: it resumes the decoder and, when that ends in
  \<^verbatim>\<open>state_DecodeDone\<close>, prints the trailer. \<open>None\<close>: the decoder is still waiting for
  the sampler.
\<close>

definition ring_slots :: "fw \<Rightarrow> u8 \<Rightarrow> pulse_t list" where
  "ring_slots s c = map (\<lambda>k. pulse s (c + of_nat k)) [0..<unat (current_pulse s - c)]"

definition decode_round :: "fw \<Rightarrow> fw option" where
  "decode_round s =
     (case resume_decoder [ring_slots s (msg_start s)] s of
        None \<Rightarrow> None
      | Some s' \<Rightarrow> Some (if running_state s' = state_DecodeDone then decode_done s' else s'))"

definition cr_syncsearch :: "fw \<Rightarrow> fw option" where
  "cr_syncsearch s =
     (let s1 = sync_scan (ring_slots s (ss_pi s)) s in
      if ss_synclen s1 = SYNC_LEN
      then
        (let newstate = choose_decoder s1 in
         case decode_round (init_decoders newstate s1) of
           None \<Rightarrow> None
         | Some s2 \<Rightarrow>
            (case (if newstate = state_Decoding_ASK \<and> ss_manchester s2 \<noteq> 0 \<and> \<not> decoded s2
                   then decode_round (init_decoders state_Decoding_Manchester s2)
                   else Some s2) of
               None \<Rightarrow> None
             | Some s3 \<Rightarrow> Some (sync_finish s3)))
      else Some s1)"

definition ring_of :: "pulse_t list \<Rightarrow> u8 \<Rightarrow> pulse_t" where
  "ring_of ps i = (if unat i < length ps then ps ! unat i else (0, 0))"

section \<open>Transmit driver\<close>

text \<open>The compare-B handler, lines 183-218.\<close>

definition TIMER0_COMPB_vect :: "fw \<Rightarrow> fw" where
  "TIMER0_COMPB_vect s =
     (let s' =
        (case transceiver_mode s of
           mode_Transmitting \<Rightarrow>
             (let s1 = (if pget (tx_tp s) (tx_bit s) \<noteq> 0
                        then s\<lparr>tx_tp := pset (tx_tp s) (tx_bit s) (pget (tx_tp s) (tx_bit s) - 1)\<rparr>
                        else s)
              in if pget (tx_tp s1) (tx_bit s1) \<noteq> 0 then s1
                 else
                   let s2 = s1\<lparr>tx_bit := \<not> tx_bit s1\<rparr>;
                       s3 = (if tx_bit s2
                             then
                               (let s4 = s2\<lparr>current_pulse := current_pulse s2 + 1\<rparr>;
                                    s5 = s4\<lparr>tx_tp := pulse s4 (current_pulse s4)\<rparr>
                                in if current_pulse s5 = msg_end s5
                                   then s5\<lparr>transceiver_mode := mode_Idle, tx_bit := False\<rparr>
                                   else s5\<lparr>tx_bit := (snd (tx_tp s5) \<noteq> 0)\<rparr>)
                             else s2)
                   in s3\<lparr>pin_Transmitter := tx_bit s3\<rparr>)
         | mode_StartTransmit \<Rightarrow>
             (let s1 = s\<lparr>tx_bit := True, transceiver_mode := mode_Transmitting,
                         current_pulse := msg_start s\<rparr>;
                  s2 = s1\<lparr>tx_tp := pulse s1 (current_pulse s1)\<rparr>
              in s2\<lparr>pin_Transmitter := True\<rparr>)
         | _ \<Rightarrow> s)
      in s'\<lparr>tickcount := tickcount s' + 1\<rparr>)"

text \<open>
  The wait of \<^verbatim>\<open>transmit_message\<close>, lines 750-752: the coroutine yields until the
  transceiver mode is idle. Only the compare-B handler changes the mode then, once per
  tick while its interrupt is enabled; with the interrupt off the wait never ends, which
  is the value \<open>None\<close>.
\<close>

partial_function (option) tx_wait :: "nat \<Rightarrow> fw \<Rightarrow> fw option" where
  "tx_wait ob s =
     (if transceiver_mode s = mode_Idle then Some s
      else if bit (TIMSK0 s) ob then tx_wait ob (TIMER0_COMPB_vect s)
      else None)"

declare tx_wait.simps [code]

fun tx_retries :: "nat \<Rightarrow> nat \<Rightarrow> nat \<Rightarrow> fw \<Rightarrow> fw option" where
  "tx_retries oa ob 0 s = Some s"
| "tx_retries oa ob (Suc n) s =
     (case tx_wait ob (enable_transmitter oa ob s) of
        None \<Rightarrow> None
      | Some s' \<Rightarrow> tx_retries oa ob n (disable_transceiver oa ob s'))"

text \<open>\<^verbatim>\<open>transmit_message\<close>, lines 737-756.\<close>

definition transmit_message :: "nat \<Rightarrow> nat \<Rightarrow> fw \<Rightarrow> fw option" where
  "transmit_message oa ob s =
     (let s1 = s\<lparr>pulse := (pulse s)(bcount s := pset (pulse s (bcount s)) False MAX_TICKS_PER_PHASE)\<rparr>;
          s2 = s1\<lparr>pulse := (pulse s1)(bcount s1 := pset (pulse s1 (bcount s1)) True 0)\<rparr>;
          s3 = s2\<lparr>msg_end := bcount s2 + 1\<rparr>;
          s4 = s3\<lparr>msg_start := 0\<rparr>
      in if msg_end s4 \<le> 16 then Some s4
         else (case tx_retries oa ob 3 s4 of
                 None \<Rightarrow> None
               | Some s5 \<Rightarrow> Some (enable_receiver oa ob s5)))"

section \<open>Command parser\<close>

text \<open>
  The serial input is the list of the bytes that arrive, in order. \<^verbatim>\<open>uart_recv\<close> (lines
  681-695) returns the next one, or \<^verbatim>\<open>0xff\<close> after its timeout when none is left.
  Every function returns the input that remains.
\<close>

definition ch :: "char \<Rightarrow> u8" where
  "ch c = of_char c"

definition uart_recv :: "u8 list \<Rightarrow> u8 \<times> u8 list" where
  "uart_recv inp = (case inp of [] \<Rightarrow> (0xff, []) | c # cs \<Rightarrow> (c, cs))"

text \<open>\<^verbatim>\<open>recv_match_string_P\<close>, lines 700-713. \<open>b\<close> starts as the first character of the
  string, which the caller has matched already; \<open>match_from w b inp\<close> is the loop, \<open>w\<close> being
  what is left of the string from \<^verbatim>\<open>w[i]\<close> on. The strings of the source are not empty.\<close>

fun match_from :: "u8 list \<Rightarrow> u8 \<Rightarrow> u8 list \<Rightarrow> u8 \<times> u8 list" where
  "match_from [] b inp = (b, inp)"
| "match_from (c # w) b inp =
     (if b = c
      then (if w = [] then (b, inp)
            else let (b', inp') = uart_recv inp in match_from w b' inp')
      else (b, inp))"

definition recv_match_string_P :: "u8 list \<Rightarrow> u8 list \<Rightarrow> u8 \<times> u8 list" where
  "recv_match_string_P w inp = (case w of [] \<Rightarrow> (0, inp) | c # _ \<Rightarrow> match_from w c inp)"

text \<open>\<^verbatim>\<open>getsbyte\<close>, lines 719-735: the result is the return value, the byte left in
  \<^verbatim>\<open>*res\<close> and the rest of the input.\<close>

definition hexval :: "u8 \<Rightarrow> u8 option" where
  "hexval c =
     (if c \<ge> ch CHR ''0'' \<and> c \<le> ch CHR ''9'' then Some (c - ch CHR ''0'')
      else if c \<ge> ch CHR ''a'' \<and> c \<le> ch CHR ''f'' then Some (c - ch CHR ''a'' + 10)
      else if c \<ge> ch CHR ''A'' \<and> c < ch CHR ''F'' then Some (c - ch CHR ''A'' + 10)
      else None)"

function getsbyte_from :: "nat \<Rightarrow> u8 \<Rightarrow> u8 list \<Rightarrow> u8 \<times> u8 \<times> u8 list" where
  "getsbyte_from cnt res inp =
     (if cnt < 2
      then (let (c, inp') = uart_recv inp; res' = push_bit 4 res
            in case hexval c of
                 None \<Rightarrow> (c, res', inp')
               | Some v \<Rightarrow> getsbyte_from (cnt + 1) (res' OR v) inp')
      else (0, res, inp))"
  by pat_completeness auto
termination
  by (relation "measure (\<lambda>(cnt, res, inp). 2 - cnt)") auto

declare getsbyte_from.simps [simp del]

definition getsbyte :: "u8 list \<Rightarrow> u8 \<times> u8 \<times> u8 list" where
  "getsbyte inp = getsbyte_from 0 0 inp"

text \<open>The expansion of a payload byte into eight pulses for type \<^verbatim>\<open>'A'\<close>, lines 811-818.\<close>

definition ask_pulse :: "nat \<Rightarrow> fw \<Rightarrow> fw" where
  "ask_pulse b s =
     (let bit1 = (drop_bit (7 - b) (rc_byte s) AND 1 \<noteq> 0);
          s1 = s\<lparr>pulse := (pulse s)(bcount s :=
                  pset (pulse s (bcount s)) bit1 (syncduration s - syncduration s div 4))\<rparr>;
          s2 = s1\<lparr>pulse := (pulse s1)(bcount s1 :=
                  pset (pulse s1 (bcount s1)) (\<not> bit1) (syncduration s1 div 4))\<rparr>
      in s2\<lparr>bcount := bcount s2 + 1\<rparr>)"

function ask_expand :: "nat \<Rightarrow> fw \<Rightarrow> fw" where
  "ask_expand b s = (if b < 8 then ask_expand (b + 1) (ask_pulse b s) else s)"
  by pat_completeness auto
termination
  by (relation "measure (\<lambda>(b, s). 8 - b)") auto

declare ask_expand.simps [simp del]

lemma getsbyte_from_length: "length (snd (snd (getsbyte_from cnt res inp))) \<le> length inp"
proof (induction cnt res inp rule: getsbyte_from.induct)
  case (1 cnt res inp)
  show ?case
  proof (cases "cnt < 2")
    case True
    obtain c inp' where u: "uart_recv inp = (c, inp')"
      by (cases "uart_recv inp")
    then have le: "length inp' \<le> length inp"
      by (auto simp: uart_recv_def split: list.splits)
    show ?thesis
    proof (cases "hexval c")
      case None
      with True u le show ?thesis
        by (subst getsbyte_from.simps) simp
    next
      case (Some v)
      have "length (snd (snd (getsbyte_from (cnt + 1) (push_bit 4 res OR v) inp'))) \<le> length inp'"
        using "1.IH" [OF True refl u [symmetric] refl Some] .
      with True u le Some show ?thesis
        by (subst getsbyte_from.simps) simp
    qed
  next
    case False
    then show ?thesis by (subst getsbyte_from.simps) simp
  qed
qed

lemma getsbyte_length: "getsbyte inp = (r, v, inp') \<Longrightarrow> length inp' \<le> length inp"
  using getsbyte_from_length [of 0 0 inp] by (simp add: getsbyte_def)

lemma getsbyte_empty: "getsbyte [] = (0xff, 0, [])"
  by (simp add: getsbyte_def getsbyte_from.simps [of 0] uart_recv_def hexval_def ch_def)

lemma getsbyte_consumes:
  assumes "getsbyte inp = (r, v, inp')" and "r \<noteq> 0xff"
  shows "length inp' < length inp"
proof (cases inp)
  case Nil
  with assms show ?thesis by (simp add: getsbyte_empty)
next
  case (Cons c cs)
  show ?thesis
  proof (cases "hexval c")
    case None
    with Cons assms(1) show ?thesis
      by (auto simp: getsbyte_def uart_recv_def getsbyte_from.simps [of 0])
  next
    case (Some x)
    have "length (snd (snd (getsbyte_from 1 (push_bit 4 0 OR x) cs))) \<le> length cs"
      by (rule getsbyte_from_length)
    with Cons Some assms(1) show ?thesis
      by (auto simp: getsbyte_def uart_recv_def getsbyte_from.simps [of 0])
  qed
qed

text \<open>
  The token loop of an \<^verbatim>\<open>M\<close> command, lines 798-855. The C code jumps between three
  places, which are the three labels: \<open>L_tokens\<close> reads the next key, \<open>L_newkey\<close> is the
  \<^verbatim>\<open>switch\<close> on the key in \<^verbatim>\<open>b\<close>, \<open>L_data\<close> is the loop over the payload bytes after
  \<^verbatim>\<open>':'\<close>. The result is the state at \<^verbatim>\<open>skipline\<close>.
\<close>

datatype label = L_tokens | L_newkey | L_data

function m_command :: "nat \<Rightarrow> nat \<Rightarrow> label \<Rightarrow> fw \<Rightarrow> u8 list \<Rightarrow> (fw \<times> u8 list) option" where
  "m_command oa ob L_tokens s inp =
     (let (b, inp') = uart_recv inp in m_command oa ob L_newkey (s\<lparr>rc_b := b\<rparr>) inp')"
| "m_command oa ob L_newkey s inp =
     (if rc_b s = ch CHR '':'' then m_command oa ob L_data s inp
      else if rc_b s = ch CHR ''*'' then
        (let (r, v, inp') = getsbyte inp; s1 = s\<lparr>rc_b := v\<rparr> in
         if r \<noteq> 0 then Some (s1, inp')
         else if rc_b s1 = rc_chk s1 then
           (case transmit_message oa ob (s1\<lparr>rc_state := rc_state s1 + 1\<rparr>) of
              None \<Rightarrow> None
            | Some s2 \<Rightarrow> Some (s2, inp'))
         else Some (s1\<lparr>rc_err := ch CHR ''*''\<rparr>, inp'))
      else if rc_b s = ch CHR ''!'' then
        (let (r, v, inp') = getsbyte inp; s1 = s\<lparr>syncduration := v\<rparr> in
         if r \<noteq> 0 then Some (s1, inp')
         else m_command oa ob L_tokens (s1\<lparr>rc_chk := rc_chk s1 + syncduration s1\<rparr>) inp')
      else if rc_b s = ch CHR ''#'' then
        (let (r, v, inp') = getsbyte inp; s1 = s\<lparr>bcount := v\<rparr> in
         if r \<noteq> 0 then Some (s1, inp')
         else m_command oa ob L_tokens (s1\<lparr>rc_chk := rc_chk s1 + bcount s1\<rparr>) inp')
      else Some (s\<lparr>rc_err := rc_b s\<rparr>, inp))"
| "m_command oa ob L_data s inp =
     (let (r, v, inp') = getsbyte inp; s1 = s\<lparr>rc_byte := v, rc_b := r\<rparr> in
      if r \<noteq> 0 then m_command oa ob L_newkey s1 inp'
      else
        let s2 = s1\<lparr>rc_chk := rc_chk s1 + rc_byte s1\<rparr>;
            s3 = (if rc_msg_type s2 = ch CHR ''A'' then ask_expand 0 s2 else s2)
        in m_command oa ob L_data s3 inp')"
  by pat_completeness auto
termination
proof (relation "measure (\<lambda>(oa, ob, l, s, inp). 4 * length inp +
          (case l of L_tokens \<Rightarrow> 1 | L_newkey \<Rightarrow> (if rc_b s = ch CHR '':'' then 3 else 0)
           | L_data \<Rightarrow> 2))", goal_cases)
  case 1
  show ?case by simp
next
  case (2 oa ob s inp x b inp')
  then show ?case by (auto simp: uart_recv_def ch_def split: list.splits)
next
  case (3 oa ob s inp)
  then show ?case by simp
next
  case (4 oa ob s inp x r y v inp' s1)
  then have "getsbyte inp = (r, v, inp')" by simp
  from getsbyte_consumes [OF this] 4 show ?case by (simp add: ch_def)
next
  case (5 oa ob s inp x r y v inp' s1)
  then have "getsbyte inp = (r, v, inp')" by simp
  from getsbyte_consumes [OF this] 5 show ?case by (simp add: ch_def)
next
  case (6 oa ob s inp x r y v inp' s1)
  then have g: "getsbyte inp = (r, v, inp')" by simp
  show ?case
  proof (cases "r = ch CHR '':''")
    case True
    then have "r \<noteq> 0xff" by (simp add: ch_def)
    from getsbyte_consumes [OF g this] 6 show ?thesis by simp
  next
    case False
    with getsbyte_length [OF g] 6 show ?thesis by simp
  qed
next
  case (7 oa ob s inp x r y v inp' s1 s2 s3)
  then have "getsbyte inp = (r, v, inp')" by simp
  from getsbyte_consumes [OF this] 7 show ?case by simp
qed

declare m_command.simps [simp del]

text \<open>The end of a command, lines 878-895: \<^verbatim>\<open>skipline\<close> drops the rest of the line, the
  reply is printed, and \<^verbatim>\<open>again\<close> returns to receiving.\<close>

fun skipline :: "u8 \<Rightarrow> u8 list \<Rightarrow> u8 \<times> u8 list" where
  "skipline b [] = (if b \<ge> ch CHR '' '' \<and> b \<noteq> 0xff then 0xff else b, [])"
| "skipline b (c # cs) = (if b \<ge> ch CHR '' '' \<and> b \<noteq> 0xff then skipline c cs else (b, c # cs))"

definition again :: "nat \<Rightarrow> nat \<Rightarrow> fw \<Rightarrow> fw" where
  "again oa ob s =
     (let s1 = enable_receiver oa ob s;
          s2 = s1\<lparr>running_state := state_SyncSearch\<rparr>
      in s2\<lparr>current_pulse := 0, msg_end := 0, msg_start := 0\<rparr>)"

definition skipline_reply :: "nat \<Rightarrow> nat \<Rightarrow> fw \<times> u8 list \<Rightarrow> fw \<times> u8 list" where
  "skipline_reply oa ob si =
     (let s = fst si;
          (b, inp') = skipline (rc_b s) (snd si);
          s1 = s\<lparr>rc_b := b\<rparr>;
          s2 = (if rc_err s1 \<noteq> 0 then put (''!'' @ printf_d (rc_err s1) @ [CHR 0x0A]) s1
                else if rc_state s1 \<noteq> 0 then put (''*OK'' @ [CHR 0x0A]) s1
                else s1)
      in (again oa ob s2, inp'))"

text \<open>
  One round of the loop of \<^verbatim>\<open>cr_receive_cmd\<close>, lines 765-897: one command. \<open>None\<close>: the
  command started a transmission whose wait never ends. \<open>line str\<close> is the text \<open>str\<close>
  with its newline, as bytes; \<open>flag_command\<close> is the shape the \<^verbatim>\<open>PULSE\<close>, \<^verbatim>\<open>DEMOD\<close> and
  \<^verbatim>\<open>STACK\<close> commands share: the rest of the word and its newline are matched, and the
  flag is set when the byte that ends the match is a newline.
\<close>

definition line :: "string \<Rightarrow> u8 list" where
  "line str = map ch str @ [0x0A]"

definition flag_command :: "string \<Rightarrow> (fw \<Rightarrow> fw) \<Rightarrow> fw \<Rightarrow> u8 list \<Rightarrow> fw \<times> u8 list" where
  "flag_command w set_flag s inp =
     (let (b, inp') = recv_match_string_P (line w) inp;
          s1 = s\<lparr>rc_b := b\<rparr>
      in if b = 0x0A then ((set_flag s1)\<lparr>rc_state := rc_state s1 + 1\<rparr>, inp')
         else (s1\<lparr>rc_err := b\<rparr>, inp'))"

definition cr_receive_cmd :: "nat \<Rightarrow> nat \<Rightarrow> fw \<Rightarrow> u8 list \<Rightarrow> (fw \<times> u8 list) option" where
  "cr_receive_cmd oa ob s inp =
     (let s0 = s\<lparr>rc_state := 0, rc_err := 0\<rparr>;
          (b, inp1) = uart_recv inp;
          s1 = s0\<lparr>rc_b := b\<rparr>
      in if b = 0xff then Some (again oa ob s1, inp1)
         else
           let s2 = disable_transceiver oa ob s1 in
           if b = ch CHR ''M'' then
             (let (t, inp2) = uart_recv inp1; s3 = s2\<lparr>rc_msg_type := t\<rparr> in
              if t = 0xff then Some (again oa ob s3, inp2)
              else if t \<noteq> ch CHR ''A'' \<and> t \<noteq> ch CHR ''M'' \<and> t \<noteq> ch CHR ''P''
              then Some (skipline_reply oa ob (s3\<lparr>rc_err := rc_b s3\<rparr>, inp2))
              else
                let s4 = (if t = ch CHR ''A'' then s3\<lparr>syncduration := 0x63\<rparr>
                          else if t = ch CHR ''M'' then s3\<lparr>syncduration := 0x40\<rparr>
                          else s3);
                    s5 = s4\<lparr>bcount := 0, rc_chk := 0x55\<rparr>
                in map_option (skipline_reply oa ob) (m_command oa ob L_tokens s5 inp2))
           else if b = ch CHR ''P'' then
             Some (skipline_reply oa ob
                     (flag_command ''PULSE'' (\<lambda>s. s\<lparr>display_pulses := True\<rparr>) s2 inp1))
           else if b = ch CHR ''D'' then
             Some (skipline_reply oa ob
                     (flag_command ''DEMOD'' (\<lambda>s. s\<lparr>display_pulses := False\<rparr>) s2 inp1))
           else if b = ch CHR ''S'' then
             Some (skipline_reply oa ob
                     (flag_command ''STACK'' (\<lambda>s. s\<lparr>display_stacks := True\<rparr>) s2 inp1))
           else Some (skipline_reply oa ob (s2, inp1)))"

section \<open>Vocabulary of the statements\<close>

text \<open>
  A message line as the wire grammar writes it: the header, the payload bytes in
  hexadecimal, and the trailer with the bit count, the sync duration and the checksum,
  each printed with the conversion the main loop uses for it.
\<close>

definition hex_payload :: "u8 list \<Rightarrow> string" where
  "hex_payload payload = concat (map printf_02x payload)"

definition message_line :: "string \<Rightarrow> u8 list \<Rightarrow> u8 \<Rightarrow> u8 \<Rightarrow> u8 \<Rightarrow> string" where
  "message_line header payload bit_count sync_duration checksum =
     header @ hex_payload payload @ ''#'' @ printf_02x bit_count @ ''!'' @
     printf_0x sync_duration @ ''*'' @ printf_02x checksum @ [CHR 0x0A]"

definition header_of :: "rstate \<Rightarrow> string" where
  "header_of st =
     (case st of
        state_Decoding_ASK \<Rightarrow> ''MA:''
      | state_Decoding_OOK \<Rightarrow> ''MO:''
      | state_Decoding_Manchester \<Rightarrow> ''MM:''
      | state_DecodeRawPulses \<Rightarrow> ''MP:''
      | _ \<Rightarrow> [])"

text \<open>\<open>emits s s'\<close>: from \<open>s\<close> to \<open>s'\<close> the firmware has printed payload bytes and nothing
  else, and has added each of them to the checksum.\<close>

definition emits :: "fw \<Rightarrow> fw \<Rightarrow> bool" where
  "emits s s' =
     (\<exists>payload. uart_out s' = uart_out s @ hex_payload payload \<and>
                chk s' = chk s + sum_list payload \<and>
                syncduration s' = syncduration s)"







text \<open>
  What a command leaves unchanged and how it ends. \<open>kept\<close>: the transmit driver and the
  transceiver transitions touch neither the serial output nor the parser's result nor
  the message range. \<open>steady\<close>: a parsing step that neither prints nor transmits nor
  decides. \<open>outcome\<close>: the state in which the token loop of an \<^verbatim>\<open>M\<close> command reaches
  \<^verbatim>\<open>skipline\<close>; it has printed nothing, and it has transmitted only if the checksum
  matched and the range is longer than 16 slots. \<open>reply\<close>: the line printed at the
  end of a command.
\<close>

definition kept :: "fw \<Rightarrow> fw \<Rightarrow> bool" where
  "kept s s' =
     (uart_out s' = uart_out s \<and> rc_state s' = rc_state s \<and> rc_err s' = rc_err s \<and>
      bcount s' = bcount s \<and> msg_end s' = msg_end s \<and> msg_start s' = msg_start s)"

definition steady :: "fw \<Rightarrow> fw \<Rightarrow> bool" where
  "steady s s' =
     (uart_out s' = uart_out s \<and> tx_armed s' = tx_armed s \<and> rc_state s' = rc_state s \<and>
      rc_err s' = rc_err s)"

definition outcome :: "fw \<Rightarrow> fw \<Rightarrow> bool" where
  "outcome s s' =
     (uart_out s' = uart_out s \<and>
      (if rc_state s' = 0 then tx_armed s' = tx_armed s
       else rc_state s' = 1 \<and> rc_err s' = 0 \<and>
            (bcount s' + 1 \<le> 16 \<longrightarrow> tx_armed s' = tx_armed s)))"

definition reply :: "fw \<Rightarrow> string" where
  "reply s =
     (if rc_err s \<noteq> 0 then ''!'' @ printf_d (rc_err s) @ [CHR 0x0A]
      else if rc_state s \<noteq> 0 then ''*OK'' @ [CHR 0x0A]
      else [])"

section \<open>Properties\<close>

subsection \<open>Cursor distance\<close>

lemma abs_sub_word: "abs_sub a b = (if a > b then a - b else b - a)"
  by (simp add: abs_sub_def)

lemma ovf_sub_word: "ovf_sub a b = (if a > b then b - a - 1 else b - a)"
  by (simp add: ovf_sub_def)

text \<open>
  Claim C3: for all 8-bit cursors \<open>a\<close> and \<open>b\<close>, \<open>ovf_sub a b = (b - a) mod 256\<close>.
  The code takes \<open>255 - a + b\<close> where the cursor has wrapped (\<open>a > b\<close>), one less than
  the distance modulo 256: from cursor 1 to cursor 0 it returns 254 where the ring
  distance is 255. On words \<open>b - a\<close> is the subtraction modulo 256.
\<close>

theorem ovf_sub_off_by_one:
  "ovf_sub 1 0 = 254 \<and> (0 - 1 :: u8) = 255 \<and> ovf_sub 1 0 \<noteq> 0 - 1"
  by (simp add: ovf_sub_def)

subsection \<open>Half-duplex exclusivity\<close>

lemma disable_steps_excl:
  "oa \<noteq> ob \<Longrightarrow> \<not> both_armed oa ob s \<Longrightarrow> x \<in> set (disable_transceiver_steps oa ob s) \<Longrightarrow>
   \<not> both_armed oa ob x"
  by (auto simp: disable_transceiver_steps_def both_armed_def Let_def timer_mask_def bit_simps)

lemma receiver_steps_excl:
  "oa \<noteq> ob \<Longrightarrow> \<not> both_armed oa ob s \<Longrightarrow> x \<in> set (enable_receiver_steps oa ob s) \<Longrightarrow>
   \<not> both_armed oa ob x"
  by (auto simp: enable_receiver_steps_def both_armed_def Let_def timer_mask_def bit_simps
      split: if_splits)

lemma transmitter_steps_excl:
  "oa \<noteq> ob \<Longrightarrow> \<not> both_armed oa ob s \<Longrightarrow> x \<in> set (enable_transmitter_steps oa ob s) \<Longrightarrow>
   \<not> both_armed oa ob x"
  by (auto simp: enable_transmitter_steps_def both_armed_def Let_def timer_mask_def bit_simps
      split: if_splits)

lemma transition_steps_excl:
  "oa \<noteq> ob \<Longrightarrow> \<not> both_armed oa ob s \<Longrightarrow> x \<in> set (transition_steps oa ob t s) \<Longrightarrow>
   \<not> both_armed oa ob x"
  by (cases t) (auto dest: disable_steps_excl receiver_steps_excl transmitter_steps_excl)

lemma transition_steps_nonempty: "transition_steps oa ob t s \<noteq> []"
  by (cases t) (simp_all add: disable_transceiver_steps_def enable_receiver_steps_def
      enable_transmitter_steps_def Let_def)

lemma visited_excl:
  "oa \<noteq> ob \<Longrightarrow> \<not> both_armed oa ob s \<Longrightarrow> x \<in> set (visited oa ob s ts) \<Longrightarrow>
   \<not> both_armed oa ob x"
proof (induction ts arbitrary: s)
  case Nil
  then show ?case by simp
next
  case (Cons t ts)
  have l: "\<not> both_armed oa ob (last (transition_steps oa ob t s))"
    using Cons.prems(1,2) transition_steps_excl [of oa ob s _ t]
      last_in_set [OF transition_steps_nonempty [of oa ob t s]] by blast
  from Cons.prems(3) consider "x = s" | "x \<in> set (transition_steps oa ob t s)"
    | "x \<in> set (visited oa ob (last (transition_steps oa ob t s)) ts)"
    by auto
  then show ?case
  proof cases
    case 1
    then show ?thesis using Cons.prems(2) by simp
  next
    case 2
    then show ?thesis using Cons.prems(1,2) transition_steps_excl by blast
  next
    case 3
    then show ?thesis using Cons.IH [OF Cons.prems(1) l] by blast
  qed
qed

lemma reset_not_armed: "\<not> both_armed oa ob reset_state"
  by (simp add: both_armed_def reset_state_def)

text \<open>
  Claim C8: starting from reset, after any sequence of the transitions
  \<^verbatim>\<open>enable_receiver\<close>, \<^verbatim>\<open>enable_transmitter\<close> and \<^verbatim>\<open>disable_transceiver\<close>, the compare-A and
  the compare-B interrupt enable bits of \<^verbatim>\<open>TIMSK0\<close> are never both set: not between two
  transitions and not between two statements of one. The two bit numbers are any two
  different ones.
\<close>

theorem half_duplex_exclusive:
  "oa \<noteq> ob \<Longrightarrow> \<forall>x \<in> set (visited oa ob reset_state ts). \<not> both_armed oa ob x"
  using visited_excl reset_not_armed by blast

theorem half_duplex_exclusive_witness:
  "(1::nat) \<noteq> 2 \<and>
   list_all (\<lambda>x. \<not> both_armed 1 2 x)
     (visited 1 2 reset_state
        [Enable_receiver, Enable_transmitter, Enable_transmitter, Disable_transceiver,
         Enable_transmitter, Enable_receiver]) \<and>
   bit (TIMSK0 (enable_transmitter 1 2 (enable_receiver 1 2 reset_state))) 2 \<and>
   bit (TIMSK0 (enable_receiver 1 2 reset_state)) 1"
  using half_duplex_exclusive [of 1 2 "[Enable_receiver, Enable_transmitter,
    Enable_transmitter, Disable_transceiver, Enable_transmitter, Enable_receiver]"]
  by (simp add: list_all_iff enable_transmitter_def enable_receiver_def
      enable_transmitter_steps_def enable_receiver_steps_def reset_state_def timer_mask_def
      Let_def)

subsection \<open>Saturation of the phase counters\<close>

lemma unat_inc_below: "x < (255::u8) \<Longrightarrow> unat (x + 1) = unat x + 1"
  by (simp add: word_less_nat_alt unat_word_ariths)

lemma unat_not_below: "\<not> x < (255::u8) \<Longrightarrow> unat x = 255"
  using unsigned_less [of x, where 'a = nat] by (simp add: word_less_nat_alt)

lemma phase_tick_sat:
  "unat (pget (pulse (phase_tick b s) (current_pulse s)) b)
     = min 255 (unat (pget (pulse s (current_pulse s)) b) + 1)"
proof (cases "pget (pulse s (current_pulse s)) b < 255")
  case True
  then have lt: "unat (pget (pulse s (current_pulse s)) b) < 255"
    by (simp add: word_less_nat_alt)
  have "pget (pulse (phase_tick b s) (current_pulse s)) b =
        pget (pulse s (current_pulse s)) b + 1"
    using True by (simp add: phase_tick_def Let_def MAX_TICKS_PER_PHASE_def pget_def pset_def)
  then show ?thesis
    using lt by (simp add: unat_inc_below [OF True])
next
  case False
  then show ?thesis
    by (simp add: phase_tick_def Let_def MAX_TICKS_PER_PHASE_def unat_not_below)
qed

lemma phase_tick_current: "current_pulse (phase_tick b s) = current_pulse s"
  by (simp add: phase_tick_def Let_def)

lemma phase_tick_rx_bit: "rx_bit (phase_tick b s) = rx_bit s"
  by (simp add: phase_tick_def Let_def)

lemma handler_slot:
  "pget (pulse (TIMER0_COMPA_vect b s) (current_pulse s)) b =
     (if \<not> rx_bit s \<and> b \<and>
         \<not> (fst (pulse (phase_tick b s) (current_pulse s)) > 20 \<or>
            snd (pulse (phase_tick b s) (current_pulse s)) > 20)
      then 0 else pget (pulse (phase_tick b s) (current_pulse s)) b)"
  by (simp add: TIMER0_COMPA_vect_def rising_edge_def Let_def phase_tick_current
      phase_tick_rx_bit pget_def)

text \<open>
  Claim C4 as stated: the increment saturates at 254 and never produces 255. It does
  produce it: a low-phase counter at 254 is 255 after a tick with the pin low.
\<close>

theorem sampler_tick_reaches_255:
  "pget (pulse (reset_state\<lparr>pulse := (\<lambda>_. (254, 0))\<rparr>) 0) False = 254 \<and>
   pget (pulse (TIMER0_COMPA_vect False (reset_state\<lparr>pulse := (\<lambda>_. (254, 0))\<rparr>)) 0) False = 255"
  by (simp add: TIMER0_COMPA_vect_def phase_tick_def rising_edge_def Let_def reset_state_def
      pget_def pset_def MAX_TICKS_PER_PHASE_def)

text \<open>
  Claim C4, amended: on every sampler tick the phase counter of the current slot for the
  pin level \<open>b\<close> is incremented with saturation at 255: a counter below 255 goes up by
  one, so 254 becomes 255, and a counter at 255 stays; it never wraps to 0. The handler
  keeps that value in the slot, except on a rising edge that ends a tiny pulse (neither
  phase above 20 ticks), where it clears the slot.
\<close>

theorem sampler_tick_saturates_at_255:
  "unat (pget (pulse (phase_tick b s) (current_pulse s)) b)
     = min 255 (unat (pget (pulse s (current_pulse s)) b) + 1) \<and>
   pget (pulse (TIMER0_COMPA_vect b s) (current_pulse s)) b =
     (if \<not> rx_bit s \<and> b \<and>
         \<not> (fst (pulse (phase_tick b s) (current_pulse s)) > 20 \<or>
            snd (pulse (phase_tick b s) (current_pulse s)) > 20)
      then 0 else pget (pulse (phase_tick b s) (current_pulse s)) b)"
  using phase_tick_sat handler_slot by blast

subsection \<open>Checksum law of the emitted lines\<close>

lemma emits_refl: "emits s s"
  unfolding emits_def by (rule exI [of _ "[]"]) (simp add: hex_payload_def)

lemma emits_trans: "emits s s' \<Longrightarrow> emits s' s'' \<Longrightarrow> emits s s''"
proof -
  assume "emits s s'" and "emits s' s''"
  then obtain p q where
    p: "uart_out s' = uart_out s @ hex_payload p" "chk s' = chk s + sum_list p"
       "syncduration s' = syncduration s" and
    q: "uart_out s'' = uart_out s' @ hex_payload q" "chk s'' = chk s' + sum_list q"
       "syncduration s'' = syncduration s'"
    unfolding emits_def by blast
  show ?thesis
    unfolding emits_def
    by (rule exI [of _ "p @ q"]) (simp add: p q hex_payload_def add.assoc)
qed

lemma emits_same:
  "uart_out s' = uart_out s \<Longrightarrow> chk s' = chk s \<Longrightarrow> syncduration s' = syncduration s \<Longrightarrow> emits s s'"
  unfolding emits_def by (rule exI [of _ "[]"]) (simp add: hex_payload_def)

lemma emits_eq_cong:
  "uart_out t = uart_out s \<Longrightarrow> chk t = chk s \<Longrightarrow> syncduration t = syncduration s \<Longrightarrow> emits t s' = emits s s'"
  by (simp add: emits_def)

lemma stuffbit_emits: "emits s (stuffbit b l s)"
proof (cases "l \<noteq> 0 \<or> bcount s mod 8 = 7")
  case True
  then show ?thesis
    unfolding emits_def
    by (intro exI [of _ "[byte s OR push_bit (7 - unat (bcount s mod 8)) b]"])
       (auto simp: stuffbit_def Let_def put_def hex_payload_def)
next
  case False
  then show ?thesis
    by (intro emits_same) (auto simp: stuffbit_def Let_def)
qed

lemma stuffbit_msg_end [simp]: "msg_end (stuffbit b l s) = msg_end s"
  by (simp add: stuffbit_def Let_def put_def)

lemma set_msg_end_emits: "emits s s' \<Longrightarrow> emits (s\<lparr>msg_end := x\<rparr>) s'"
  by (simp add: emits_def)

lemma ask_inner_emits: "ask_inner ps pi s = Some (pi', s') \<Longrightarrow> emits s s'"
proof (induction ps arbitrary: pi s)
  case Nil
  then show ?case by (auto simp: emits_refl split: if_splits)
next
  case (Cons p ps)
  show ?case
  proof (cases "msg_end s \<noteq> 0")
    case True
    with Cons.prems show ?thesis by (auto simp: emits_refl)
  next
    case False
    let ?s1 = "s\<lparr>msg_end := as_flag (fst p \<ge> MAX_TICKS_PER_PHASE)\<rparr>"
    let ?s2 = "stuffbit (as_flag (snd p > fst p)) (msg_end ?s1) ?s1"
    from False Cons.prems have "ask_inner ps (pi + 1) ?s2 = Some (pi', s')"
      by (simp add: Let_def)
    then have "emits ?s2 s'" by (rule Cons.IH)
    moreover have "emits ?s1 ?s2" by (rule stuffbit_emits)
    moreover have "emits s ?s1" by (rule emits_same) simp_all
    ultimately show ?thesis by (blast intro: emits_trans)
  qed
qed

lemma ook_inner_emits: "ook_inner margin ps pi s = Some (pi', s') \<Longrightarrow> emits s s'"
proof (induction ps arbitrary: pi s)
  case Nil
  then show ?case by (auto simp: emits_refl split: if_splits)
next
  case (Cons p ps)
  show ?case
  proof (cases "msg_end s \<noteq> 0")
    case True
    with Cons.prems show ?thesis by (auto simp: emits_refl)
  next
    case False
    let ?s1 = "s\<lparr>msg_end := as_flag (fst p \<ge> MAX_TICKS_PER_PHASE)\<rparr>"
    let ?s2 = "if abs_sub (fst p) (syncduration ?s1) \<le> margin
               then stuffbit 0 (msg_end ?s1) ?s1 else ?s1"
    let ?s3 = "if abs_sub (snd p) (syncduration ?s2) \<le> margin
               then stuffbit 1 (msg_end ?s2) ?s2 else ?s2"
    from False Cons.prems have "ook_inner margin ps (pi + 1) ?s3 = Some (pi', s')"
      by (simp add: Let_def)
    then have "emits ?s3 s'" by (rule Cons.IH)
    moreover have "emits ?s2 ?s3" by (simp add: stuffbit_emits emits_refl)
    moreover have "emits ?s1 ?s2" by (simp add: stuffbit_emits emits_refl)
    moreover have "emits s ?s1" by (rule emits_same) simp_all
    ultimately show ?thesis by (blast intro: emits_trans)
  qed
qed

lemma raw_pulse_emits:
  "emits s (s\<lparr>uart_out := uart_out s @ printf_02x a @ printf_02x b, chk := chk s + (a + b)\<rparr>)"
  unfolding emits_def by (rule exI [of _ "[a, b]"]) (simp add: hex_payload_def)

lemma pulses_inner_emits: "pulses_inner ps pi s = Some (pi', s') \<Longrightarrow> emits s s'"
proof (induction ps arbitrary: pi s)
  case Nil
  then show ?case by (auto simp: emits_refl split: if_splits)
next
  case (Cons p ps)
  show ?case
  proof (cases "msg_end s \<noteq> 0")
    case True
    with Cons.prems show ?thesis by (auto simp: emits_refl)
  next
    case False
    let ?s1 = "s\<lparr>msg_end := as_flag (fst p \<ge> MAX_TICKS_PER_PHASE)\<rparr>"
    let ?s3 = "?s1\<lparr>uart_out := uart_out ?s1 @ printf_02x (snd p) @ printf_02x (fst p),
                   chk := chk ?s1 + (snd p + fst p)\<rparr>"
    let ?s4 = "?s3\<lparr>bcount := bcount ?s3 + 1\<rparr>"
    from False Cons.prems have "pulses_inner ps (pi + 1) ?s4 = Some (pi', s')"
      by (simp add: Let_def put_def)
    then have "emits ?s4 s'" by (rule Cons.IH)
    moreover have "emits ?s3 ?s4" by (rule emits_same) simp_all
    moreover have "emits ?s1 ?s3" by (rule raw_pulse_emits)
    moreover have "emits s ?s1" by (rule emits_same) simp_all
    ultimately show ?thesis by (blast intro: emits_trans)
  qed
qed

lemma man_stuff_emits: "emits (snd ms) (snd (man_stuff ms))"
  by (simp add: man_stuff_def Let_def stuffbit_emits emits_refl)

lemma man_half_emits: "emits (snd ms) (snd (man_half margin p ms))"
proof -
  let ?s1 = "(snd ms)\<lparr>msg_end := as_flag (fst p \<ge> MAX_TICKS_PER_PHASE)\<rparr>"
  let ?a = "man_stuff (fst ms, ?s1)"
  have 1: "emits (snd ms) ?s1" by (rule emits_same) simp_all
  have 2: "emits ?s1 (snd ?a)" using man_stuff_emits [of "(fst ms, ?s1)"] by simp
  have 3: "emits (snd ?a) (snd (man_stuff (m, snd ?a)))" for m
    using man_stuff_emits [of "(m, snd ?a)"] by simp
  show ?thesis
    unfolding man_half_def Let_def case_prod_beta
    using emits_trans [OF emits_trans [OF 1 2] 3] by simp
qed

lemma man_inner_emits: "emits (snd ms) (snd (snd (man_inner margin ps pi ms)))"
proof (induction margin ps pi ms rule: man_inner.induct)
  case (1 margin pi ms)
  show ?case by (simp add: emits_refl)
next
  case (2 margin p ps pi ms)
  show ?case
  proof (cases "msg_end (snd ms) \<noteq> 0")
    case True
    then show ?thesis by (simp add: emits_refl)
  next
    case False
    obtain m1 s1 where h: "man_half margin p ms = (m1, s1)"
      by (cases "man_half margin p ms")
    have e: "emits (snd ms) s1" using man_half_emits [of ms margin p] h by simp
    show ?thesis
    proof (cases "m_phase m1")
      case True
      have "emits s1 (snd (snd (man_inner margin (p # ps) pi (m1\<lparr>m_phase := \<not> m_phase m1\<rparr>, s1))))"
        using "2.IH"(2) [OF _ refl h [symmetric]] False True by simp
      with e False True h show ?thesis
        by (auto intro: emits_trans)
    next
      case no: False
      have "emits s1 (snd (snd (man_inner margin ps (pi + 1) (m1\<lparr>m_phase := \<not> m_phase m1\<rparr>, s1))))"
        using "2.IH"(1) [OF _ refl h [symmetric]] False no by simp
      with e False no h show ?thesis
        by (auto intro: emits_trans)
    qed
  qed
qed

lemma man_emit_emits: "man_emit margin cs pi ms = Some (pi', s') \<Longrightarrow> emits (snd ms) s'"
proof (induction margin cs pi ms rule: man_emit.induct)
  case (1 margin pi ms)
  then show ?case by simp
next
  case (2 margin cs pi ms)
  then show ?case by simp
next
  case (3 margin v va cs pi ms)
  obtain pi1 ms1 where h: "man_inner margin (v # va) pi ms = (pi1, ms1)"
    by (cases "man_inner margin (v # va) pi ms")
  have e: "emits (snd ms) (snd ms1)"
    using man_inner_emits [of ms margin "v # va" pi] h by simp
  show ?case
  proof (cases "msg_end (snd ms1) = 0 \<and> bcount (snd ms1) < 0xd0")
    case True
    with "3.prems" h have "man_emit margin cs pi1 ms1 = Some (pi', s')" by simp
    from "3.IH" [OF refl h [symmetric] True this] e show ?thesis
      by (blast intro: emits_trans)
  next
    case False
    with "3.prems" h have "s' = snd ms1" by auto
    with e show ?thesis by simp
  qed
qed

lemma put_emits_cong: "emits (put hdr (s\<lparr>decoded := d\<rparr>)) s' = emits (put hdr s) s'"
  by (simp add: emits_def put_def)

lemma emits_after:
  "emits s s' \<Longrightarrow> emits s (s'\<lparr>running_state := r, msg_start := m\<rparr>)"
  "emits s s' \<Longrightarrow> emits s (s'\<lparr>msg_start := m, running_state := r\<rparr>)"
  by (simp_all add: emits_def)

lemma cr_decode_ask_emits:
  assumes "cr_decode_ask ps s = Some s'" and "running_state s' = state_DecodeDone"
  shows "emits (put ''MA:'' s) s'"
proof -
  from assms obtain pi' s1 where
    a: "ask_inner ps (msg_start s) (put ''MA:'' (s\<lparr>decoded := True\<rparr>)) = Some (pi', s1)" and
    b: "s' = s1\<lparr>running_state := state_DecodeDone, msg_start := pi'\<rparr>"
    by (auto simp: cr_decode_ask_def split: option.splits if_splits list.splits)
  from ask_inner_emits [OF a] have "emits (put ''MA:'' s) s1"
    by (simp add: put_emits_cong)
  with b show ?thesis by (simp add: emits_after)
qed

lemma cr_decode_ook_emits:
  assumes "cr_decode_ook ps s = Some s'" and "running_state s' = state_DecodeDone"
  shows "emits (put ''MO:'' s) s'"
proof -
  from assms obtain pi' s1 where
    a: "ook_inner (syncduration s div 8) ps (msg_start s) (put ''MO:'' (s\<lparr>decoded := True\<rparr>))
          = Some (pi', s1)" and
    b: "s' = s1\<lparr>running_state := state_DecodeDone, msg_start := pi'\<rparr>"
    by (auto simp: cr_decode_ook_def Let_def split: option.splits if_splits list.splits)
  from ook_inner_emits [OF a] have "emits (put ''MO:'' s) s1"
    by (simp add: put_emits_cong)
  with b show ?thesis by (simp add: emits_after)
qed

lemma cr_decode_manchester_emits:
  assumes "cr_decode_manchester cs s = Some s'" and "running_state s' = state_DecodeDone"
  shows "emits (put ''MM:'' s) s'"
proof -
  from assms obtain pi' s1 where
    a: "man_emit (syncduration s div 4) cs (msg_start s)
          (\<lparr>m_bit = 0, m_phase = True, m_demiclock = 0, m_stuffclock = 0\<rparr>,
           put ''MM:'' (s\<lparr>decoded := True\<rparr>)) = Some (pi', s1)" and
    b: "s' = s1\<lparr>running_state := state_DecodeDone, msg_start := pi'\<rparr>"
    by (auto simp: cr_decode_manchester_def Let_def split: option.splits if_splits)
  from man_emit_emits [OF a] have "emits (put ''MM:'' s) s1"
    by (simp add: put_emits_cong)
  with b show ?thesis by (simp add: emits_after)
qed

lemma cr_decode_pulses_emits:
  assumes "cr_decode_pulses ps s = Some s'"
  shows "emits (put ''MP:'' s) s'"
proof -
  from assms obtain pi' s1 where
    a: "pulses_inner ps (msg_start s) (put ''MP:'' s) = Some (pi', s1)" and
    b: "s' = s1\<lparr>msg_start := pi', running_state := state_DecodeDone\<rparr>"
    by (auto simp: cr_decode_pulses_def split: option.splits list.splits)
  from pulses_inner_emits [OF a] b show ?thesis by (simp add: emits_after)
qed

lemma resume_decoder_emits:
  assumes "resume_decoder cs s = Some s'" and "running_state s' = state_DecodeDone"
  shows "emits (put (header_of (running_state s)) s) s'"
  using assms
  by (cases "running_state s")
     (simp_all add: resume_decoder_def header_of_def cr_decode_ask_emits cr_decode_ook_emits
        cr_decode_manchester_emits cr_decode_pulses_emits)

lemma sum_list_of_nat: "(sum_list ws :: u8) = of_nat (sum_list (map unat ws))"
  by (induction ws) simp_all

lemma unat_checksum:
  "unat (0x55 + sum_list payload + bc + sd :: u8) =
     (0x55 + sum_list (map unat payload) + unat bc + unat sd) mod 256"
proof -
  have "(0x55 + sum_list payload + bc + sd :: u8) =
        of_nat (0x55 + sum_list (map unat payload) + unat bc + unat sd)"
    by (simp add: sum_list_of_nat)
  then show ?thesis by (simp only: unat_of_nat) simp
qed

lemma decode_done_out:
  "bcount s \<noteq> 0 \<Longrightarrow>
   uart_out (decode_done s) =
     uart_out s @ ''#'' @ printf_02x (bcount s) @ ''!'' @ printf_0x (syncduration s) @
     ''*'' @ printf_02x (chk s + bcount s + syncduration s) @ [CHR 0x0A]"
  by (simp add: decode_done_def Let_def put_def)

text \<open>
  Claim C1: for every message line the firmware emits (types MA, MO, MM and MP), the
  checksum printed after \<^verbatim>\<open>*\<close> equals \<open>(0x55 + sum of the payload bytes + bit_count +
  sync_duration) mod 256\<close>, the payload bytes being the hex bytes printed between \<^verbatim>\<open>:\<close>
  and \<^verbatim>\<open>#\<close>. A line is emitted when a decoder, started by the searcher, ends in
  \<^verbatim>\<open>state_DecodeDone\<close> and the main loop prints the trailer, which it does when the bit
  count is not zero. Everything sent since the decoder started is then one message line
  whose checksum field obeys the law.
\<close>

theorem checksum_law:
  assumes "resume_decoder cs (init_decoders st s) = Some s'"
    and "running_state s' = state_DecodeDone"
    and "bcount s' \<noteq> 0"
  shows "\<exists>payload c.
           uart_out (decode_done s') =
             uart_out s @ message_line (header_of st) payload (bcount s') (syncduration s') c \<and>
           unat c = (0x55 + sum_list (map unat payload) + unat (bcount s') +
                     unat (syncduration s')) mod 256"
proof -
  have "emits (put (header_of st) (init_decoders st s)) s'"
    using resume_decoder_emits [OF assms(1,2)] by (simp add: init_decoders_def)
  then obtain payload where
    o: "uart_out s' = uart_out s @ header_of st @ hex_payload payload" and
    c: "chk s' = 0x55 + sum_list payload"
    by (auto simp: emits_def put_def init_decoders_def)
  let ?c = "0x55 + sum_list payload + bcount s' + syncduration s'"
  have "uart_out (decode_done s') =
          uart_out s @ message_line (header_of st) payload (bcount s') (syncduration s') ?c"
    by (simp add: decode_done_out [OF assms(3)] o c message_line_def)
  then show ?thesis using unat_checksum by blast
qed

theorem checksum_law_witness:
  "\<exists>s'. resume_decoder
          [[(36,12),(12,36),(36,12),(36,12),(36,12),(36,12),(36,12),(36,12),
            (36,12),(12,36),(36,12),(12,36),(36,12),(12,36),(36,12),(12,36),
            (36,12),(36,12),(12,36),(12,36),(255,12)]]
          (init_decoders state_Decoding_ASK (reset_state\<lparr>syncduration := 0x30\<rparr>)) = Some s' \<and>
        running_state s' = state_DecodeDone \<and> bcount s' \<noteq> 0 \<and>
        uart_out (decode_done s') = ''MA:405530#15!30*5f'' @ [CHR 0x0A] \<and>
        (\<exists>payload c.
           uart_out (decode_done s') =
             uart_out (reset_state\<lparr>syncduration := 0x30\<rparr>) @
             message_line (header_of state_Decoding_ASK) payload (bcount s') (syncduration s') c \<and>
           unat c = (0x55 + sum_list (map unat payload) + unat (bcount s') +
                     unat (syncduration s')) mod 256)"
proof -
  let ?r = "resume_decoder
          [[(36,12),(12,36),(36,12),(36,12),(36,12),(36,12),(36,12),(36,12),
            (36,12),(12,36),(36,12),(12,36),(36,12),(12,36),(36,12),(12,36),
            (36,12),(36,12),(12,36),(12,36),(255,12)]]
          (init_decoders state_Decoding_ASK (reset_state\<lparr>syncduration := 0x30\<rparr>))"
  have a: "?r \<noteq> None" by code_simp
  have b: "running_state (the ?r) = state_DecodeDone" by code_simp
  have c: "bcount (the ?r) \<noteq> 0" by code_simp
  have d: "uart_out (decode_done (the ?r)) = ''MA:405530#15!30*5f'' @ [CHR 0x0A]" by code_simp
  from a have e: "?r = Some (the ?r)" by simp
  from checksum_law [OF e b c] a b c d e show ?thesis by blast
qed

subsection \<open>Width of the trailer fields\<close>

text \<open>
  Claim C7: every emitted message line ends with the trailer \<^verbatim>\<open>#\<close>, two hex digits of the
  bit count, \<^verbatim>\<open>!\<close>, two hex digits of the sync duration, \<^verbatim>\<open>*\<close>, two hex digits of the
  checksum. The main loop prints the bit count and the checksum with \<^verbatim>\<open>%02x\<close> but the sync
  duration with \<^verbatim>\<open>%0x\<close>, which pads nothing: a sync duration below 16 is one digit. With
  the raw-pulse display on, eight cycles that alternate between 128 and 192 ticks per
  phase drive the 8-bit sync duration to 0; the line then ends in \<^verbatim>\<open>#09!0*60\<close>.
\<close>

theorem trailer_sync_duration_one_digit:
  "map_option uart_out
     (cr_syncsearch (reset_state\<lparr>display_pulses := True, current_pulse := 9,
        pulse := ring_of [(128,128),(192,192),(128,128),(192,192),(128,128),(192,192),
                          (128,128),(192,192),(255,3)]\<rparr>))
   = Some (''MP:8080c0c08080c0c08080c0c08080c0c003ff#09!0*60'' @ [CHR 0x0A])"
proof -
  let ?s0 = "reset_state\<lparr>display_pulses := True, current_pulse := 9,
        pulse := ring_of [(128,128),(192,192),(128,128),(192,192),(128,128),(192,192),
                          (128,128),(192,192),(255,3)]\<rparr>"
  let ?s1 = "sync_scan (ring_slots ?s0 (ss_pi ?s0)) ?s0"
  let ?r = "decode_round (init_decoders state_DecodeRawPulses ?s1)"
  have 1: "ss_synclen ?s1 = SYNC_LEN" by code_simp
  have 2: "choose_decoder ?s1 = state_DecodeRawPulses" by code_simp
  have 3: "?r \<noteq> None" by code_simp
  have 4: "uart_out (sync_finish (the ?r)) =
             ''MP:8080c0c08080c0c08080c0c08080c0c003ff#09!0*60'' @ [CHR 0x0A]" by code_simp
  from 3 obtain s2 where 5: "?r = Some s2" by blast
  with 4 have 6: "uart_out (sync_finish s2) =
             ''MP:8080c0c08080c0c08080c0c08080c0c003ff#09!0*60'' @ [CHR 0x0A]" by simp
  show ?thesis
    unfolding cr_syncsearch_def Let_def
    by (simp only: 1 2 5 6 simp_thms if_True if_False option.case option.map rstate.distinct)
qed

subsection \<open>Modulation classification\<close>























subsection \<open>Outcome of an inbound command\<close>

lemma kept_refl: "kept s s"
  by (simp add: kept_def)

lemma kept_trans: "kept s s' \<Longrightarrow> kept s' s'' \<Longrightarrow> kept s s''"
  by (simp add: kept_def)

lemma compb_kept: "kept s (TIMER0_COMPB_vect s)"
  by (cases "transceiver_mode s") (simp_all add: kept_def TIMER0_COMPB_vect_def Let_def)

lemma enable_transmitter_kept: "kept s (enable_transmitter oa ob s)"
  by (simp add: kept_def enable_transmitter_def enable_transmitter_steps_def Let_def)

lemma enable_receiver_kept: "kept s (enable_receiver oa ob s)"
  by (simp add: kept_def enable_receiver_def enable_receiver_steps_def Let_def)

lemma disable_transceiver_kept: "kept s (disable_transceiver oa ob s)"
  by (simp add: kept_def disable_transceiver_def disable_transceiver_steps_def Let_def)

lemma tx_wait_kept:
  assumes "tx_wait ob s = Some s'"
  shows "kept s s'"
proof (rule tx_wait.raw_induct [where P = "\<lambda>ob s s'. kept s s'", OF _ assms])
  fix f ob s y
  assume ih: "\<And>ob s y. f ob s = Some y \<Longrightarrow> kept s y"
    and eq: "(if transceiver_mode s = mode_Idle then Some s
              else if bit (TIMSK0 s) ob then f ob (TIMER0_COMPB_vect s) else None) = Some y"
  show "kept s y"
  proof (cases "transceiver_mode s = mode_Idle")
    case True
    with eq show ?thesis by (simp add: kept_refl)
  next
    case False
    with eq have "f ob (TIMER0_COMPB_vect s) = Some y" by (simp split: if_splits)
    from ih [OF this] show ?thesis by (rule kept_trans [OF compb_kept])
  qed
qed

lemma tx_retries_kept: "tx_retries oa ob n s = Some s' \<Longrightarrow> kept s s'"
proof (induction n arbitrary: s)
  case 0
  then show ?case by (simp add: kept_refl)
next
  case (Suc n)
  then obtain s1 where w: "tx_wait ob (enable_transmitter oa ob s) = Some s1"
    and r: "tx_retries oa ob n (disable_transceiver oa ob s1) = Some s'"
    by (auto split: option.splits)
  have "kept s s1"
    using kept_trans [OF enable_transmitter_kept tx_wait_kept [OF w]] .
  moreover have "kept s1 (disable_transceiver oa ob s1)" by (rule disable_transceiver_kept)
  moreover have "kept (disable_transceiver oa ob s1) s'" using Suc.IH [OF r] .
  ultimately show ?case by (blast intro: kept_trans)
qed

text \<open>What \<^verbatim>\<open>transmit_message\<close> leaves behind: the cursors of the range, and no
  transmission when the range is too short.\<close>

lemma transmit_message_result:
  assumes "transmit_message oa ob s = Some s'"
  shows "uart_out s' = uart_out s \<and> rc_state s' = rc_state s \<and> rc_err s' = rc_err s \<and>
         bcount s' = bcount s \<and> msg_end s' = bcount s + 1 \<and> msg_start s' = 0 \<and>
         (bcount s + 1 \<le> 16 \<longrightarrow> tx_armed s' = tx_armed s)"
proof (cases "bcount s + 1 \<le> 16")
  case True
  with assms show ?thesis
    by (auto simp: transmit_message_def Let_def)
next
  case False
  let ?s4 = "s\<lparr>pulse := (pulse s)(bcount s := pset (pulse s (bcount s)) False MAX_TICKS_PER_PHASE)\<rparr>
              \<lparr>pulse := ((pulse s)(bcount s := pset (pulse s (bcount s)) False MAX_TICKS_PER_PHASE))
                 (bcount s := pset (((pulse s)(bcount s := pset (pulse s (bcount s)) False MAX_TICKS_PER_PHASE)) (bcount s)) True 0)\<rparr>
              \<lparr>msg_end := bcount s + 1\<rparr>\<lparr>msg_start := 0\<rparr>"
  from False assms obtain s5 where r: "tx_retries oa ob 3 ?s4 = Some s5"
    and e: "s' = enable_receiver oa ob s5"
    by (auto simp: transmit_message_def Let_def split: option.splits)
  have "kept ?s4 s'"
    using kept_trans [OF tx_retries_kept [OF r] enable_receiver_kept] e by simp
  with False show ?thesis by (simp add: kept_def)
qed

lemma outcome_steady: "steady s s1 \<Longrightarrow> outcome s1 s' \<Longrightarrow> outcome s s'"
  by (simp add: steady_def outcome_def)

lemma ask_pulse_steady: "steady s (ask_pulse b s)"
  by (simp add: steady_def ask_pulse_def Let_def)

lemma steady_trans: "steady s s1 \<Longrightarrow> steady s1 s2 \<Longrightarrow> steady s s2"
  by (simp add: steady_def)

lemma ask_expand_steady: "steady s (ask_expand b s)"
proof (induction b s rule: ask_expand.induct)
  case (1 b s)
  show ?case
  proof (cases "b < 8")
    case True
    from steady_trans [OF ask_pulse_steady "1.IH" [OF True]] True show ?thesis
      by (subst ask_expand.simps) simp
  next
    case False
    then show ?thesis by (subst ask_expand.simps) (simp add: steady_def)
  qed
qed

lemma m_command_outcome:
  "m_command oa ob l s inp = Some (s', inp') \<Longrightarrow> rc_state s = 0 \<Longrightarrow> rc_err s = 0 \<Longrightarrow>
   outcome s s'"
proof (induction oa ob l s inp arbitrary: s' inp' rule: m_command.induct)
  case (1 oa ob s inp)
  obtain b i where u: "uart_recv inp = (b, i)" by (cases "uart_recv inp")
  from "1.prems"(1) u have "m_command oa ob L_newkey (s\<lparr>rc_b := b\<rparr>) i = Some (s', inp')"
    by (simp add: m_command.simps(1))
  from "1.IH" [OF refl u [symmetric] this] "1.prems"(2,3)
  have "outcome (s\<lparr>rc_b := b\<rparr>) s'" by simp
  then show ?case by (simp add: outcome_def)
next
  case (2 oa ob s inp)
  obtain r v i where g: "getsbyte inp = (r, v, i)" by (cases "getsbyte inp")
  consider (colon) "rc_b s = ch CHR '':''"
    | (star) "rc_b s \<noteq> ch CHR '':''" "rc_b s = ch CHR ''*''"
    | (bang) "rc_b s \<noteq> ch CHR '':''" "rc_b s \<noteq> ch CHR ''*''" "rc_b s = ch CHR ''!''"
    | (hash) "rc_b s \<noteq> ch CHR '':''" "rc_b s \<noteq> ch CHR ''*''" "rc_b s \<noteq> ch CHR ''!''"
        "rc_b s = ch CHR ''#''"
    | (other) "rc_b s \<noteq> ch CHR '':''" "rc_b s \<noteq> ch CHR ''*''" "rc_b s \<noteq> ch CHR ''!''"
        "rc_b s \<noteq> ch CHR ''#''"
    by blast
  then show ?case
  proof cases
    case colon
    with "2.prems"(1) have "m_command oa ob L_data s inp = Some (s', inp')"
      by (simp add: m_command.simps(2))
    from "2.IH"(1) [OF colon this "2.prems"(2,3)] show ?thesis .
  next
    case star
    show ?thesis
    proof (cases "r \<noteq> 0")
      case True
      with star g "2.prems" show ?thesis
        by (auto simp: m_command.simps(2) outcome_def)
    next
      case False
      show ?thesis
      proof (cases "v = rc_chk s")
        case True
        with False star g "2.prems"(1) obtain s2 where
          t: "transmit_message oa ob (s\<lparr>rc_b := v, rc_state := rc_state s + 1\<rparr>) = Some s2"
          and e: "s' = s2"
          by (auto simp: m_command.simps(2) split: option.splits)
        from transmit_message_result [OF t] e "2.prems"(2,3) show ?thesis
          by (simp add: outcome_def)
      next
        case no: False
        with False star g "2.prems" show ?thesis
          by (auto simp: m_command.simps(2) outcome_def)
      qed
    qed
  next
    case bang
    show ?thesis
    proof (cases "r \<noteq> 0")
      case True
      with bang g "2.prems" show ?thesis
        by (auto simp: m_command.simps(2) outcome_def)
    next
      case False
      with bang g "2.prems"(1) have
        "m_command oa ob L_tokens (s\<lparr>syncduration := v, rc_chk := rc_chk s + v\<rparr>) i = Some (s', inp')"
        by (simp add: m_command.simps(2))
      with "2.IH"(2) [OF bang(1,2,3) refl g [symmetric] refl refl False, of s' inp'] "2.prems"(2,3)
      have "outcome (s\<lparr>syncduration := v, rc_chk := rc_chk s + v\<rparr>) s'" by simp
      then show ?thesis by (simp add: outcome_def)
    qed
  next
    case hash
    show ?thesis
    proof (cases "r \<noteq> 0")
      case True
      with hash g "2.prems" show ?thesis
        by (auto simp: m_command.simps(2) outcome_def)
    next
      case False
      with hash g "2.prems"(1) have
        "m_command oa ob L_tokens (s\<lparr>bcount := v, rc_chk := rc_chk s + v\<rparr>) i = Some (s', inp')"
        by (simp add: m_command.simps(2))
      with "2.IH"(3) [OF hash(1,2,3,4) refl g [symmetric] refl refl False, of s' inp'] "2.prems"(2,3)
      have "outcome (s\<lparr>bcount := v, rc_chk := rc_chk s + v\<rparr>) s'" by simp
      then show ?thesis by (simp add: outcome_def)
    qed
  next
    case other
    with "2.prems" show ?thesis
      by (auto simp: m_command.simps(2) outcome_def)
  qed
next
  case (3 oa ob s inp)
  obtain r v i where g: "getsbyte inp = (r, v, i)" by (cases "getsbyte inp")
  show ?case
  proof (cases "r \<noteq> 0")
    case True
    with g "3.prems"(1) have
      "m_command oa ob L_newkey (s\<lparr>rc_byte := v, rc_b := r\<rparr>) i = Some (s', inp')"
      by (subst (asm) m_command.simps(3)) simp
    with "3.IH"(1) [OF refl g [symmetric] refl refl True, of s' inp'] "3.prems"(2,3)
    have "outcome (s\<lparr>rc_byte := v, rc_b := r\<rparr>) s'" by simp
    then show ?thesis by (simp add: outcome_def)
  next
    case False
    let ?s1 = "s\<lparr>rc_byte := v, rc_b := r\<rparr>"
    let ?s2 = "?s1\<lparr>rc_chk := rc_chk ?s1 + rc_byte ?s1\<rparr>"
    let ?s3 = "if rc_msg_type ?s2 = ch CHR ''A'' then ask_expand 0 ?s2 else ?s2"
    from False g "3.prems"(1) have m: "m_command oa ob L_data ?s3 i = Some (s', inp')"
      by (subst (asm) m_command.simps(3)) (auto simp: Let_def split: if_splits)
    have st: "steady s ?s3"
      using ask_expand_steady [of ?s2 0] by (simp add: steady_def)
    then have z: "rc_state ?s3 = 0" "rc_err ?s3 = 0"
      using "3.prems"(2,3) by (simp_all add: steady_def)
    have "outcome ?s3 s'"
      by (rule "3.IH"(2) [OF refl g [symmetric] refl refl False refl refl m z])
    with st show ?thesis by (rule outcome_steady)
  qed
qed

lemma enable_receiver_armed:
  "TIMSK0 (enable_receiver oa ob s) AND timer_mask oa ob = push_bit oa 1"
proof (cases "TIMSK0 s AND timer_mask oa ob = push_bit oa 1")
  case True
  then show ?thesis by (simp add: enable_receiver_def enable_receiver_steps_def)
next
  case False
  have "(TIMSK0 s AND NOT (timer_mask oa ob) OR push_bit oa 1) AND timer_mask oa ob = push_bit oa 1"
    by (rule bit_eqI) (auto simp: timer_mask_def bit_simps)
  with False show ?thesis
    by (simp add: enable_receiver_def enable_receiver_steps_def Let_def)
qed

lemma enable_receiver_fields:
  "uart_out (enable_receiver oa ob s) = uart_out s"
  "tx_armed (enable_receiver oa ob s) = tx_armed s"
  "rc_state (enable_receiver oa ob s) = rc_state s"
  "rc_err (enable_receiver oa ob s) = rc_err s"
  "bcount (enable_receiver oa ob s) = bcount s"
  by (simp_all add: enable_receiver_def enable_receiver_steps_def Let_def)

lemma disable_transceiver_fields:
  "uart_out (disable_transceiver oa ob s) = uart_out s"
  "tx_armed (disable_transceiver oa ob s) = tx_armed s"
  "rc_state (disable_transceiver oa ob s) = rc_state s"
  "rc_err (disable_transceiver oa ob s) = rc_err s"
  "rc_b (disable_transceiver oa ob s) = rc_b s"
  by (simp_all add: disable_transceiver_def disable_transceiver_steps_def Let_def)

lemma again_fields:
  "uart_out (again oa ob s) = uart_out s"
  "tx_armed (again oa ob s) = tx_armed s"
  "rc_state (again oa ob s) = rc_state s"
  "rc_err (again oa ob s) = rc_err s"
  "bcount (again oa ob s) = bcount s"
  "running_state (again oa ob s) = state_SyncSearch"
  "TIMSK0 (again oa ob s) AND timer_mask oa ob = push_bit oa 1"
  by (simp_all add: again_def Let_def enable_receiver_fields enable_receiver_armed)

lemma skipline_reply_fields:
  assumes "skipline_reply oa ob (s, inp) = (s', inp')"
  shows "uart_out s' = uart_out s @ reply s" and "tx_armed s' = tx_armed s"
    and "rc_state s' = rc_state s" and "rc_err s' = rc_err s" and "bcount s' = bcount s"
    and "running_state s' = state_SyncSearch"
    and "TIMSK0 s' AND timer_mask oa ob = push_bit oa 1"
  using assms
  by (auto simp: skipline_reply_def Let_def case_prod_beta again_fields put_def reply_def)

lemma m_line_outcome:
  assumes "cr_receive_cmd oa ob s (ch CHR ''M'' # rest) = Some (s', inp')"
  shows "uart_out s' = uart_out s @ reply s' \<and>
         (rc_state s' = 0 \<or> rc_err s' = 0 \<and> rc_state s' = 1) \<and>
         (rc_state s' = 0 \<or> bcount s' + 1 \<le> 16 \<longrightarrow> tx_armed s' = tx_armed s) \<and>
         running_state s' = state_SyncSearch \<and>
         TIMSK0 s' AND timer_mask oa ob = push_bit oa 1"
proof -
  let ?s1 = "s\<lparr>rc_state := 0, rc_err := 0, rc_b := ch CHR ''M''\<rparr>"
  let ?s2 = "disable_transceiver oa ob ?s1"
  obtain t inp2 where u: "uart_recv rest = (t, inp2)" by (cases "uart_recv rest")
  let ?s3 = "?s2\<lparr>rc_msg_type := t\<rparr>"
  have M: "ch CHR ''M'' \<noteq> (0xff :: u8)" by (simp add: ch_def)
  note df = disable_transceiver_fields
  consider (timeout) "t = 0xff"
    | (bad) "t \<noteq> 0xff" "t \<noteq> ch CHR ''A'' \<and> t \<noteq> ch CHR ''M'' \<and> t \<noteq> ch CHR ''P''"
    | (good) "t \<noteq> 0xff" "\<not> (t \<noteq> ch CHR ''A'' \<and> t \<noteq> ch CHR ''M'' \<and> t \<noteq> ch CHR ''P'')"
    by blast
  then show ?thesis
  proof cases
    case timeout
    with assms u M have "s' = again oa ob ?s3"
      by (simp add: cr_receive_cmd_def uart_recv_def Let_def)
    then show ?thesis by (simp add: again_fields df reply_def)
  next
    case bad
    with assms u M have "skipline_reply oa ob (?s3\<lparr>rc_err := rc_b ?s3\<rparr>, inp2) = (s', inp')"
      by (simp add: cr_receive_cmd_def uart_recv_def Let_def)
    from skipline_reply_fields [OF this] show ?thesis
      by (simp add: df reply_def)
  next
    case good
    let ?s4 = "if t = ch CHR ''A'' then ?s3\<lparr>syncduration := 0x63\<rparr>
               else if t = ch CHR ''M'' then ?s3\<lparr>syncduration := 0x40\<rparr> else ?s3"
    let ?s5 = "?s4\<lparr>bcount := 0, rc_chk := 0x55\<rparr>"
    from good assms u M obtain s6 inp6 where
      m: "m_command oa ob L_tokens ?s5 inp2 = Some (s6, inp6)" and
      r: "skipline_reply oa ob (s6, inp6) = (s', inp')"
      by (auto simp: cr_receive_cmd_def uart_recv_def Let_def)
    have z: "rc_state ?s5 = 0" "rc_err ?s5 = 0" "uart_out ?s5 = uart_out s"
      "tx_armed ?s5 = tx_armed s"
      by (simp_all add: df)
    from m_command_outcome [OF m z(1,2)] z(3,4) have o: "outcome s s6"
      by (simp add: outcome_def)
    note f = skipline_reply_fields [OF r]
    from o f show ?thesis
      by (auto simp: outcome_def reply_def split: if_splits)
  qed
qed

lemma ch_codes:
  "ch CHR ''M'' = 77" "ch CHR ''A'' = 65" "ch CHR ''P'' = 80" "ch CHR ''D'' = 68"
  "ch CHR ''S'' = 83" "ch CHR '':'' = 58" "ch CHR ''*'' = 42" "ch CHR ''!'' = 33"
  "ch CHR ''#'' = 35" "ch CHR ''F'' = 70" "ch CHR ''f'' = 102" "ch CHR ''0'' = 48"
  "ch CHR ''9'' = 57" "ch CHR ''a'' = 97" "ch CHR ''E'' = 69" "ch CHR '' '' = 32"
  by (simp_all add: ch_def)

lemma printf_d_42: "printf_d 42 = ''42''"
  by code_simp

lemma printf_d_70: "printf_d 70 = ''70''"
  by code_simp

lemma reply_star: "rc_err s = 42 \<Longrightarrow> reply s = ''!42'' @ [CHR 0x0A]"
  by (simp add: reply_def printf_d_42)

lemma reply_F: "rc_err s = 70 \<Longrightarrow> reply s = ''!70'' @ [CHR 0x0A]"
  by (simp add: reply_def printf_d_70)

lemma reply_ok: "rc_err s = 0 \<Longrightarrow> rc_state s \<noteq> 0 \<Longrightarrow> reply s = ''*OK'' @ [CHR 0x0A]"
  by (simp add: reply_def)

lemma mismatch_run:
  "map_option (\<lambda>si. (uart_out (fst si), tx_armed (fst si), rc_err (fst si), snd si))
     (cr_receive_cmd 1 2 reset_state (line ''MA!30:40553300#20*66''))
   = Some (''!42'' @ [CHR 0x0A], 0, 42, [])"
  by code_simp

text \<open>
  Claim C5 as stated: a checksum claim that differs from the accumulated checksum makes
  the firmware emit exactly the line \<^verbatim>\<open>!*\<close>. The reply is printed with \<^verbatim>\<open>"!%d\\n"\<close>: the
  character code of \<^verbatim>\<open>*\<close> in decimal. The command \<^verbatim>\<open>MA!30:40553300#20*66\<close>, whose checksum
  would be 0x77, is answered by \<^verbatim>\<open>!42\<close>.
\<close>

theorem checksum_mismatch_reply_is_decimal:
  "\<exists>s'. cr_receive_cmd 1 2 reset_state (line ''MA!30:40553300#20*66'') = Some (s', []) \<and>
        uart_out s' = ''!42'' @ [CHR 0x0A] \<and> uart_out s' \<noteq> ''!*'' @ [CHR 0x0A]"
  using mismatch_run by (cases "cr_receive_cmd 1 2 reset_state (line ''MA!30:40553300#20*66'')") auto

text \<open>
  Claim C5, amended: whenever an inbound \<^verbatim>\<open>M\<close> command carries a checksum claim that differs
  from the checksum accumulated by the parser, the parser stops with the error code of
  \<^verbatim>\<open>*\<close>, the firmware emits exactly the line \<^verbatim>\<open>!42\<close> (the decimal code of \<^verbatim>\<open>*\<close>) followed
  by newline, triggers no transmit, and returns to receiving: the running state is the
  sync search and of the two compare interrupts the receiver's alone is enabled.
\<close>

theorem checksum_mismatch_rejected:
  "(rc_b s = ch CHR ''*'' \<and> getsbyte inp = (0, c, inp') \<and> c \<noteq> rc_chk s \<longrightarrow>
      m_command oa ob L_newkey s inp = Some (s\<lparr>rc_b := c, rc_err := ch CHR ''*''\<rparr>, inp')) \<and>
   (cr_receive_cmd oa ob s (ch CHR ''M'' # rest) = Some (s', inp'') \<and> rc_err s' = ch CHR ''*'' \<longrightarrow>
      uart_out s' = uart_out s @ ''!42'' @ [CHR 0x0A] \<and> tx_armed s' = tx_armed s \<and>
      running_state s' = state_SyncSearch \<and>
      TIMSK0 s' AND timer_mask oa ob = push_bit oa 1)"
proof (intro conjI impI)
  assume "rc_b s = ch CHR ''*'' \<and> getsbyte inp = (0, c, inp') \<and> c \<noteq> rc_chk s"
  then show "m_command oa ob L_newkey s inp = Some (s\<lparr>rc_b := c, rc_err := ch CHR ''*''\<rparr>, inp')"
    by (subst m_command.simps(2)) (simp add: ch_codes)
next
  assume a: "cr_receive_cmd oa ob s (ch CHR ''M'' # rest) = Some (s', inp'') \<and>
             rc_err s' = ch CHR ''*''"
  then have e: "rc_err s' = 42" by (simp add: ch_codes)
  note o = m_line_outcome [of oa ob s rest s' inp'']
  from a o e show "uart_out s' = uart_out s @ ''!42'' @ [CHR 0x0A]"
    by (simp add: reply_star)
  from a o e show "tx_armed s' = tx_armed s" by auto
  from a o show "running_state s' = state_SyncSearch" by simp
  from a o show "TIMSK0 s' AND timer_mask oa ob = push_bit oa 1" by simp
qed

theorem checksum_mismatch_rejected_witness:
  "m_command 1 2 L_newkey (reset_state\<lparr>rc_b := ch CHR ''*'', rc_chk := 0x77\<rparr>) (line ''66'') =
     Some (reset_state\<lparr>rc_b := ch CHR ''*'', rc_chk := 0x77\<rparr>
             \<lparr>rc_b := 0x66, rc_err := ch CHR ''*''\<rparr>, [0x0A]) \<and>
   (\<exists>s'. cr_receive_cmd 1 2 reset_state (line ''MA!30:40553300#20*66'') = Some (s', []) \<and>
         rc_err s' = ch CHR ''*'' \<and>
         uart_out s' = uart_out reset_state @ ''!42'' @ [CHR 0x0A] \<and>
         tx_armed s' = tx_armed reset_state \<and> running_state s' = state_SyncSearch)"
proof -
  let ?s = "reset_state\<lparr>rc_b := ch CHR ''*'', rc_chk := 0x77\<rparr>"
  have g: "rc_b ?s = ch CHR ''*'' \<and> getsbyte (line ''66'') = (0, 0x66, [0x0A]) \<and> 0x66 \<noteq> rc_chk ?s"
    by code_simp
  from g checksum_mismatch_rejected [where s = ?s and inp = "line ''66''" and c = "0x66"
      and inp' = "[0x0A]" and oa = 1 and ob = 2]
  have 1: "m_command 1 2 L_newkey ?s (line ''66'') =
             Some (?s\<lparr>rc_b := 0x66, rc_err := ch CHR ''*''\<rparr>, [0x0A])"
    by blast
  have l: "line ''MA!30:40553300#20*66'' = ch CHR ''M'' # line ''A!30:40553300#20*66''"
    by (simp add: line_def)
  from mismatch_run obtain s' where
    r: "cr_receive_cmd 1 2 reset_state (line ''MA!30:40553300#20*66'') = Some (s', [])"
    and e: "rc_err s' = ch CHR ''*''"
    by (cases "cr_receive_cmd 1 2 reset_state (line ''MA!30:40553300#20*66'')")
       (auto simp: ch_codes)
  from r l have "cr_receive_cmd 1 2 reset_state (ch CHR ''M'' # line ''A!30:40553300#20*66'') =
      Some (s', [])" by simp
  with e checksum_mismatch_rejected [where s = reset_state and oa = 1 and ob = 2
      and rest = "line ''A!30:40553300#20*66''" and s' = s' and inp'' = "[]"]
  have "uart_out s' = uart_out reset_state @ ''!42'' @ [CHR 0x0A] \<and>
        tx_armed s' = tx_armed reset_state \<and> running_state s' = state_SyncSearch"
    by blast
  with 1 r e show ?thesis by blast
qed

lemma low_count: "b \<le> (0x0f :: u8) \<Longrightarrow> b + 1 \<le> 16"
  by (simp add: word_le_nat_alt unat_word_ariths)

lemma transmit_message_skip:
  assumes "bcount s + 1 \<le> 16"
  shows "\<exists>s1. transmit_message oa ob s = Some s1 \<and> msg_end s1 = bcount s + 1 \<and>
              msg_end s1 \<le> 16 \<and> tx_armed s1 = tx_armed s"
  using assms by (simp add: transmit_message_def Let_def)

lemma accepted_short:
  assumes "cr_receive_cmd oa ob s (ch CHR ''M'' # rest) = Some (s', inp')"
    and "rc_state s' \<noteq> 0" and "bcount s' + 1 \<le> 16"
  shows "uart_out s' = uart_out s @ ''*OK'' @ [CHR 0x0A] \<and> tx_armed s' = tx_armed s"
  using m_line_outcome [OF assms(1)] assms(2,3) by (auto simp: reply_ok)

lemma transmit_run:
  "map_option (\<lambda>si. (uart_out (fst si), tx_armed (fst si), bcount (fst si), rc_state (fst si), snd si))
     (cr_receive_cmd 1 2 reset_state (line ''MA!04:0000#10*69''))
   = Some (''*OK'' @ [CHR 0x0A], 3, 0x10, 1, [])"
  by code_simp

text \<open>
  The bit count the transmit trigger sees is the one the parser holds when it reads the
  checksum token. A \<^verbatim>\<open>#\<close> token sets it to the declared value; each payload byte of an
  \<^verbatim>\<open>MA\<close> command adds eight to it. The lemmas follow a command whose \<^verbatim>\<open>#\<close> token is
  the last before a checksum token that matches, with a bit count the trigger skips.
\<close>

lemma checked_short:
  assumes "rc_b s = ch CHR ''*''" and "getsbyte inp = (0, rc_chk s, inp')"
    and "bcount s + 1 \<le> 16"
  shows "\<exists>s'. m_command oa ob L_newkey s inp = Some (s', inp') \<and>
              rc_state s' = rc_state s + 1 \<and> rc_err s' = rc_err s \<and> bcount s' = bcount s \<and>
              msg_end s' = bcount s + 1 \<and> tx_armed s' = tx_armed s \<and> uart_out s' = uart_out s"
  using assms
  by (subst m_command.simps(2)) (simp add: ch_codes transmit_message_def Let_def)

lemma declared_short:
  assumes "rc_b s = ch CHR ''#''" and "getsbyte inp = (0, v, ch CHR ''*'' # inp1)"
    and "getsbyte inp1 = (0, rc_chk s + v, inp2)" and "v + 1 \<le> 16"
  shows "\<exists>s'. m_command oa ob L_newkey s inp = Some (s', inp2) \<and>
              rc_state s' = rc_state s + 1 \<and> rc_err s' = rc_err s \<and> bcount s' = v \<and>
              msg_end s' = v + 1 \<and> tx_armed s' = tx_armed s \<and> uart_out s' = uart_out s"
proof -
  let ?s1 = "s\<lparr>bcount := v, rc_chk := rc_chk s + v, rc_b := ch CHR ''*''\<rparr>"
  have "m_command oa ob L_newkey s inp = m_command oa ob L_newkey ?s1 inp1"
    using assms(1,2)
    by (subst m_command.simps(2), subst m_command.simps(1)) (simp add: ch_codes uart_recv_def)
  moreover have "\<exists>s'. m_command oa ob L_newkey ?s1 inp1 = Some (s', inp2) \<and>
              rc_state s' = rc_state ?s1 + 1 \<and> rc_err s' = rc_err ?s1 \<and> bcount s' = bcount ?s1 \<and>
              msg_end s' = bcount ?s1 + 1 \<and> tx_armed s' = tx_armed ?s1 \<and> uart_out s' = uart_out ?s1"
    using assms(3,4) by (intro checked_short) simp_all
  ultimately show ?thesis by simp
qed

lemma declared_short_command:
  assumes "t = ch CHR ''A'' \<or> t = ch CHR ''M'' \<or> t = ch CHR ''P''"
    and "getsbyte inp = (0, v, ch CHR ''*'' # inp1)"
    and "getsbyte inp1 = (0, 0x55 + v, inp2)" and "v + 1 \<le> 16"
  shows "\<exists>s' r. cr_receive_cmd oa ob s (ch CHR ''M'' # t # ch CHR ''#'' # inp) = Some (s', r) \<and>
              rc_state s' = 1 \<and> rc_err s' = 0 \<and> bcount s' = v \<and>
              uart_out s' = uart_out s @ ''*OK'' @ [CHR 0x0A] \<and> tx_armed s' = tx_armed s"
proof -
  let ?s1 = "s\<lparr>rc_state := 0, rc_err := 0, rc_b := ch CHR ''M''\<rparr>"
  let ?s3 = "(disable_transceiver oa ob ?s1)\<lparr>rc_msg_type := t\<rparr>"
  let ?s4 = "if t = ch CHR ''A'' then ?s3\<lparr>syncduration := 0x63\<rparr>
             else if t = ch CHR ''M'' then ?s3\<lparr>syncduration := 0x40\<rparr> else ?s3"
  let ?s5 = "?s4\<lparr>bcount := 0, rc_chk := 0x55\<rparr>"
  let ?s6 = "?s5\<lparr>rc_b := ch CHR ''#''\<rparr>"
  note df = disable_transceiver_fields
  have z: "rc_state ?s6 = 0" "rc_err ?s6 = 0" "uart_out ?s6 = uart_out s"
    "tx_armed ?s6 = tx_armed s" "rc_chk ?s6 = 0x55" "rc_b ?s6 = ch CHR ''#''"
    by (simp_all add: df)
  from declared_short [of ?s6 inp v inp1 inp2 oa ob] assms(2,3,4) z
  obtain s7 where m: "m_command oa ob L_newkey ?s6 inp = Some (s7, inp2)"
    and f: "rc_state s7 = 1" "rc_err s7 = 0" "bcount s7 = v" "tx_armed s7 = tx_armed s"
      "uart_out s7 = uart_out s"
    by auto
  have t: "m_command oa ob L_tokens ?s5 (ch CHR ''#'' # inp) = Some (s7, inp2)"
    using m by (subst m_command.simps(1)) (simp add: uart_recv_def)
  obtain s' r where k: "skipline_reply oa ob (s7, inp2) = (s', r)"
    by (cases "skipline_reply oa ob (s7, inp2)")
  have c: "cr_receive_cmd oa ob s (ch CHR ''M'' # t # ch CHR ''#'' # inp) = Some (s', r)"
    using assms(1) t k by (auto simp: cr_receive_cmd_def uart_recv_def Let_def ch_codes)
  note g = skipline_reply_fields [OF k]
  from c g f show ?thesis by (simp add: reply_ok)
qed

lemma ask_expand_counts:
  "b \<le> 8 \<Longrightarrow> bcount (ask_expand b s) = bcount s + of_nat (8 - b)"
proof (induction b s rule: ask_expand.induct)
  case (1 b s)
  show ?case
  proof (cases "b < 8")
    case True
    then have "bcount (ask_expand (b + 1) (ask_pulse b s)) = bcount (ask_pulse b s) + of_nat (8 - (b + 1))"
      using "1.IH" by simp
    moreover have "bcount (ask_pulse b s) = bcount s + 1"
      by (simp add: ask_pulse_def Let_def)
    moreover have "of_nat (8 - b) = (1 :: u8) + of_nat (8 - (b + 1))"
      using True by (simp add: Suc_diff_Suc flip: of_nat_Suc)
    ultimately show ?thesis using True
      by (subst ask_expand.simps) simp
  next
    case False
    with "1.prems" show ?thesis by (subst ask_expand.simps) simp
  qed
qed

lemma payload_byte:
  assumes "rc_msg_type s = ch CHR ''A''" and "getsbyte inp = (0, v, inp')"
  shows "m_command oa ob L_data s inp =
           m_command oa ob L_data
             (ask_expand 0 (s\<lparr>rc_byte := v, rc_b := 0\<rparr>\<lparr>rc_chk := rc_chk s + v\<rparr>)) inp' \<and>
         bcount (ask_expand 0 (s\<lparr>rc_byte := v, rc_b := 0\<rparr>\<lparr>rc_chk := rc_chk s + v\<rparr>)) =
           bcount s + 8"
  using assms
  by (simp add: m_command.simps(3) [of oa ob s inp] ask_expand_counts Let_def)

lemma declared_short_run:
  "map_option (\<lambda>si. (uart_out (fst si), tx_armed (fst si), bcount (fst si), rc_state (fst si), snd si))
     (cr_receive_cmd 1 2 reset_state (line ''MA!04#0f:00*68''))
   = Some (''*OK'' @ [CHR 0x0A], 3, 0x17, 1, [])"
  by code_simp

text \<open>
  Claim C6 as stated: a checksum-valid command whose declared bit count is 0x10 is
  answered by \<^verbatim>\<open>*OK\<close> and not transmitted. The trigger skips a range with
  \<^verbatim>\<open>msg_end <= 16\<close>, and with the bit count 0x10 \<^verbatim>\<open>msg_end\<close> is 17: the command
  \<^verbatim>\<open>MA!04:0000#10*69\<close> is answered by \<^verbatim>\<open>*OK\<close> and the transmitter is armed three times,
  once per retry. Nor is the declared bit count the one the trigger tests: the command
  \<^verbatim>\<open>MA!04#0f:00*68\<close> declares 0x0f, its payload byte adds eight pulses, the trigger finds
  the bit count 0x17 and the message is transmitted as well.
\<close>

theorem declared_0x0f_and_bit_count_0x10_are_transmitted:
  "(\<exists>s'. cr_receive_cmd 1 2 reset_state (line ''MA!04:0000#10*69'') = Some (s', []) \<and>
         bcount s' = 0x10 \<and> rc_state s' \<noteq> 0 \<and> uart_out s' = ''*OK'' @ [CHR 0x0A] \<and>
         tx_armed reset_state = 0 \<and> tx_armed s' = 3) \<and>
   (\<exists>s'. cr_receive_cmd 1 2 reset_state (line ''MA!04#0f:00*68'') = Some (s', []) \<and>
         bcount s' = 0x17 \<and> rc_state s' \<noteq> 0 \<and> uart_out s' = ''*OK'' @ [CHR 0x0A] \<and>
         tx_armed reset_state = 0 \<and> tx_armed s' = 3)"
proof
  show "\<exists>s'. cr_receive_cmd 1 2 reset_state (line ''MA!04:0000#10*69'') = Some (s', []) \<and>
         bcount s' = 0x10 \<and> rc_state s' \<noteq> 0 \<and> uart_out s' = ''*OK'' @ [CHR 0x0A] \<and>
         tx_armed reset_state = 0 \<and> tx_armed s' = 3"
    using transmit_run
    by (cases "cr_receive_cmd 1 2 reset_state (line ''MA!04:0000#10*69'')")
       (auto simp: reset_state_def)
  show "\<exists>s'. cr_receive_cmd 1 2 reset_state (line ''MA!04#0f:00*68'') = Some (s', []) \<and>
         bcount s' = 0x17 \<and> rc_state s' \<noteq> 0 \<and> uart_out s' = ''*OK'' @ [CHR 0x0A] \<and>
         tx_armed reset_state = 0 \<and> tx_armed s' = 3"
    using declared_short_run
    by (cases "cr_receive_cmd 1 2 reset_state (line ''MA!04#0f:00*68'')")
       (auto simp: reset_state_def)
qed

text \<open>
  Claim C6, amended: for every checksum-valid inbound \<^verbatim>\<open>M\<close> command that reaches the
  checksum token with a bit count of at most 0x0f, the parser replies \<^verbatim>\<open>*OK\<close> and no
  transmit is attempted, because the transmit trigger skips any range with
  \<^verbatim>\<open>msg_end <= 16\<close>, where \<^verbatim>\<open>msg_end\<close> is the bit count plus one. The bit count at the
  checksum token is the declared one when the \<^verbatim>\<open>#\<close> token is the last before the
  checksum token, as in the commands \<^verbatim>\<open>M<type>#<count>*<checksum>\<close>; every payload byte of
  an \<^verbatim>\<open>MA\<close> command adds eight to the bit count the parser holds.
\<close>

theorem short_transmit_skipped:
  "(bcount s \<le> 0x0f \<longrightarrow>
      (\<exists>s1. transmit_message oa ob s = Some s1 \<and> msg_end s1 = bcount s + 1 \<and>
            msg_end s1 \<le> 16 \<and> tx_armed s1 = tx_armed s)) \<and>
   (rc_b s = ch CHR ''#'' \<and> getsbyte inp = (0, v, ch CHR ''*'' # inpc) \<and>
    getsbyte inpc = (0, rc_chk s + v, inpe) \<and> v \<le> 0x0f \<longrightarrow>
      (\<exists>s1. m_command oa ob L_newkey s inp = Some (s1, inpe) \<and>
            rc_state s1 = rc_state s + 1 \<and> rc_err s1 = rc_err s \<and> bcount s1 = v \<and>
            msg_end s1 = v + 1 \<and> tx_armed s1 = tx_armed s)) \<and>
   ((t = ch CHR ''A'' \<or> t = ch CHR ''M'' \<or> t = ch CHR ''P'') \<and>
    getsbyte inp = (0, v, ch CHR ''*'' # inpc) \<and> getsbyte inpc = (0, 0x55 + v, inpe) \<and>
    v \<le> 0x0f \<longrightarrow>
      (\<exists>s1 r. cr_receive_cmd oa ob s (ch CHR ''M'' # t # ch CHR ''#'' # inp) = Some (s1, r) \<and>
              bcount s1 = v \<and> uart_out s1 = uart_out s @ ''*OK'' @ [CHR 0x0A] \<and>
              tx_armed s1 = tx_armed s)) \<and>
   (rc_msg_type s = ch CHR ''A'' \<and> getsbyte inp = (0, v, inp') \<longrightarrow>
      m_command oa ob L_data s inp =
        m_command oa ob L_data
          (ask_expand 0 (s\<lparr>rc_byte := v, rc_b := 0\<rparr>\<lparr>rc_chk := rc_chk s + v\<rparr>)) inp' \<and>
      bcount (ask_expand 0 (s\<lparr>rc_byte := v, rc_b := 0\<rparr>\<lparr>rc_chk := rc_chk s + v\<rparr>)) =
        bcount s + 8) \<and>
   (cr_receive_cmd oa ob s (ch CHR ''M'' # rest) = Some (s', inp'') \<and> rc_state s' \<noteq> 0 \<and>
    bcount s' \<le> 0x0f \<longrightarrow>
      uart_out s' = uart_out s @ ''*OK'' @ [CHR 0x0A] \<and> tx_armed s' = tx_armed s)"
proof (intro conjI impI)
  assume "bcount s \<le> 0x0f"
  then show "\<exists>s1. transmit_message oa ob s = Some s1 \<and> msg_end s1 = bcount s + 1 \<and>
            msg_end s1 \<le> 16 \<and> tx_armed s1 = tx_armed s"
    by (intro transmit_message_skip low_count)
next
  assume a: "rc_b s = ch CHR ''#'' \<and> getsbyte inp = (0, v, ch CHR ''*'' # inpc) \<and>
    getsbyte inpc = (0, rc_chk s + v, inpe) \<and> v \<le> 0x0f"
  then have "v + 1 \<le> 16" by (intro low_count) simp
  with a declared_short [of s inp v inpc inpe oa ob]
  show "\<exists>s1. m_command oa ob L_newkey s inp = Some (s1, inpe) \<and>
            rc_state s1 = rc_state s + 1 \<and> rc_err s1 = rc_err s \<and> bcount s1 = v \<and>
            msg_end s1 = v + 1 \<and> tx_armed s1 = tx_armed s"
    by auto
next
  assume a: "(t = ch CHR ''A'' \<or> t = ch CHR ''M'' \<or> t = ch CHR ''P'') \<and>
    getsbyte inp = (0, v, ch CHR ''*'' # inpc) \<and> getsbyte inpc = (0, 0x55 + v, inpe) \<and>
    v \<le> 0x0f"
  then have "v + 1 \<le> 16" by (intro low_count) simp
  with a declared_short_command [of t inp v inpc inpe oa ob s]
  show "\<exists>s1 r. cr_receive_cmd oa ob s (ch CHR ''M'' # t # ch CHR ''#'' # inp) = Some (s1, r) \<and>
              bcount s1 = v \<and> uart_out s1 = uart_out s @ ''*OK'' @ [CHR 0x0A] \<and>
              tx_armed s1 = tx_armed s"
    by auto
next
  assume a: "rc_msg_type s = ch CHR ''A'' \<and> getsbyte inp = (0, v, inp')"
  with payload_byte [of s inp v inp' oa ob]
  show "m_command oa ob L_data s inp =
        m_command oa ob L_data
          (ask_expand 0 (s\<lparr>rc_byte := v, rc_b := 0\<rparr>\<lparr>rc_chk := rc_chk s + v\<rparr>)) inp'"
    and "bcount (ask_expand 0 (s\<lparr>rc_byte := v, rc_b := 0\<rparr>\<lparr>rc_chk := rc_chk s + v\<rparr>)) =
        bcount s + 8"
    by blast+
next
  assume a: "cr_receive_cmd oa ob s (ch CHR ''M'' # rest) = Some (s', inp'') \<and> rc_state s' \<noteq> 0 \<and>
    bcount s' \<le> 0x0f"
  then have "bcount s' + 1 \<le> 16" by (intro low_count) simp
  with a accepted_short [of oa ob s rest s' inp'']
  show "uart_out s' = uart_out s @ ''*OK'' @ [CHR 0x0A]" and "tx_armed s' = tx_armed s"
    by blast+
qed

lemma skipped_run:
  "map_option (\<lambda>si. (uart_out (fst si), tx_armed (fst si), bcount (fst si), rc_state (fst si), snd si))
     (cr_receive_cmd 1 2 reset_state (line ''MA!04:0000#0f*68''))
   = Some (''*OK'' @ [CHR 0x0A], 0, 0x0f, 1, [])"
  by code_simp

theorem short_transmit_skipped_witness:
  "(\<exists>s1. transmit_message 1 2 (reset_state\<lparr>bcount := 0x0f\<rparr>) = Some s1 \<and> msg_end s1 = 0x10 \<and>
         tx_armed s1 = 0) \<and>
   (\<exists>s1. m_command 1 2 L_newkey (reset_state\<lparr>rc_b := ch CHR ''#'', rc_chk := 0x59\<rparr>)
           (line ''0f*68'') = Some (s1, [0x0A]) \<and>
         rc_state s1 = 1 \<and> bcount s1 = 0x0f \<and> msg_end s1 = 0x10 \<and> tx_armed s1 = 0) \<and>
   (\<exists>s1 r. cr_receive_cmd 1 2 reset_state (line ''MA#0f*64'') = Some (s1, r) \<and>
         bcount s1 = 0x0f \<and> uart_out s1 = ''*OK'' @ [CHR 0x0A] \<and> tx_armed s1 = 0) \<and>
   bcount (ask_expand 0 (reset_state\<lparr>rc_msg_type := ch CHR ''A''\<rparr>
             \<lparr>rc_byte := 0, rc_b := 0\<rparr>\<lparr>rc_chk := 0\<rparr>)) = 8 \<and>
   (\<exists>s'. cr_receive_cmd 1 2 reset_state (line ''MA!04:0000#0f*68'') = Some (s', []) \<and>
         rc_state s' \<noteq> 0 \<and> bcount s' = 0x0f \<and>
         uart_out s' = ''*OK'' @ [CHR 0x0A] \<and> tx_armed s' = 0)"
proof -
  have b: "bcount (reset_state\<lparr>bcount := 0x0f\<rparr>) \<le> 0x0f" by simp
  from b short_transmit_skipped [where s = "reset_state\<lparr>bcount := 0x0f\<rparr>" and oa = 1 and ob = 2
      and rest = "[]" and s' = reset_state and inp'' = "[]" and inp = "[]" and inp' = "[]"
      and inpc = "[]" and inpe = "[]" and v = 0 and t = 0, THEN conjunct1]
  have "\<exists>s1. transmit_message 1 2 (reset_state\<lparr>bcount := 0x0f\<rparr>) = Some s1 \<and>
             msg_end s1 = bcount (reset_state\<lparr>bcount := 0x0f\<rparr>) + 1 \<and> msg_end s1 \<le> 16 \<and>
             tx_armed s1 = tx_armed (reset_state\<lparr>bcount := 0x0f\<rparr>)"
    by blast
  then have 1: "\<exists>s1. transmit_message 1 2 (reset_state\<lparr>bcount := 0x0f\<rparr>) = Some s1 \<and>
              msg_end s1 = 0x10 \<and> tx_armed s1 = 0"
    by (auto simp: reset_state_def)
  let ?k = "reset_state\<lparr>rc_b := ch CHR ''#'', rc_chk := 0x59\<rparr>"
  have g: "rc_b ?k = ch CHR ''#'' \<and>
           getsbyte (line ''0f*68'') = (0, 0x0f, ch CHR ''*'' # line ''68'') \<and>
           getsbyte (line ''68'') = (0, rc_chk ?k + 0x0f, [0x0A]) \<and> (0x0f :: u8) \<le> 0x0f"
    by code_simp
  from g short_transmit_skipped [where s = ?k and oa = 1 and ob = 2 and inp = "line ''0f*68''"
      and v = "0x0f" and inpc = "line ''68''" and inpe = "[0x0A]"
      and rest = "[]" and s' = reset_state and inp'' = "[]" and inp' = "[]" and t = 0,
      THEN conjunct2, THEN conjunct1]
  have "\<exists>s1. m_command 1 2 L_newkey ?k (line ''0f*68'') = Some (s1, [0x0A]) \<and>
            rc_state s1 = rc_state ?k + 1 \<and> rc_err s1 = rc_err ?k \<and> bcount s1 = 0x0f \<and>
            msg_end s1 = 0x0f + 1 \<and> tx_armed s1 = tx_armed ?k"
    by blast
  then have 2: "\<exists>s1. m_command 1 2 L_newkey ?k (line ''0f*68'') = Some (s1, [0x0A]) \<and>
         rc_state s1 = 1 \<and> bcount s1 = 0x0f \<and> msg_end s1 = 0x10 \<and> tx_armed s1 = 0"
    by (auto simp: reset_state_def)
  have h: "(ch CHR ''A'' = ch CHR ''A'' \<or> ch CHR ''A'' = ch CHR ''M'' \<or> ch CHR ''A'' = ch CHR ''P'') \<and>
           getsbyte (line ''0f*64'') = (0, 0x0f, ch CHR ''*'' # line ''64'') \<and>
           getsbyte (line ''64'') = (0, 0x55 + 0x0f, [0x0A]) \<and> (0x0f :: u8) \<le> 0x0f"
    by code_simp
  have l: "line ''MA#0f*64'' = ch CHR ''M'' # ch CHR ''A'' # ch CHR ''#'' # line ''0f*64''"
          "line ''MA!04:0000#0f*68'' = ch CHR ''M'' # line ''A!04:0000#0f*68''"
    by (simp_all add: line_def)
  from h short_transmit_skipped [where s = reset_state and oa = 1 and ob = 2
      and inp = "line ''0f*64''" and v = "0x0f" and inpc = "line ''64''" and inpe = "[0x0A]"
      and t = "ch CHR ''A''" and rest = "[]" and s' = reset_state and inp'' = "[]" and inp' = "[]",
      THEN conjunct2, THEN conjunct2, THEN conjunct1]
  have "\<exists>s1 r. cr_receive_cmd 1 2 reset_state
                  (ch CHR ''M'' # ch CHR ''A'' # ch CHR ''#'' # line ''0f*64'') = Some (s1, r) \<and>
              bcount s1 = 0x0f \<and> uart_out s1 = uart_out reset_state @ ''*OK'' @ [CHR 0x0A] \<and>
              tx_armed s1 = tx_armed reset_state"
    by blast
  then have 3: "\<exists>s1 r. cr_receive_cmd 1 2 reset_state (line ''MA#0f*64'') = Some (s1, r) \<and>
         bcount s1 = 0x0f \<and> uart_out s1 = ''*OK'' @ [CHR 0x0A] \<and> tx_armed s1 = 0"
    by (simp add: l reset_state_def)
  let ?p = "reset_state\<lparr>rc_msg_type := ch CHR ''A''\<rparr>"
  have p: "rc_msg_type ?p = ch CHR ''A'' \<and> getsbyte (line ''00'') = (0, 0, [0x0A])"
    by code_simp
  from p short_transmit_skipped [where s = ?p and oa = 1 and ob = 2
      and inp = "line ''00''" and v = 0 and inp' = "[0x0A]" and inpc = "[]" and inpe = "[]"
      and t = 0 and rest = "[]" and s' = reset_state and inp'' = "[]",
      THEN conjunct2, THEN conjunct2, THEN conjunct2, THEN conjunct1]
  have "bcount (ask_expand 0 (?p\<lparr>rc_byte := 0, rc_b := 0\<rparr>\<lparr>rc_chk := rc_chk ?p + 0\<rparr>)) =
          bcount ?p + 8"
    by blast
  then have 4: "bcount (ask_expand 0 (?p\<lparr>rc_byte := 0, rc_b := 0\<rparr>\<lparr>rc_chk := 0\<rparr>)) = 8"
    by (simp add: reset_state_def)
  from skipped_run obtain s' where
    r: "cr_receive_cmd 1 2 reset_state (line ''MA!04:0000#0f*68'') = Some (s', [])"
    and e: "rc_state s' \<noteq> 0" "bcount s' = 0x0f"
    by (cases "cr_receive_cmd 1 2 reset_state (line ''MA!04:0000#0f*68'')") auto
  from r l have "cr_receive_cmd 1 2 reset_state (ch CHR ''M'' # line ''A!04:0000#0f*68'') =
      Some (s', [])" by simp
  with e short_transmit_skipped [where s = reset_state and oa = 1 and ob = 2
      and rest = "line ''A!04:0000#0f*68''" and s' = s' and inp'' = "[]"
      and inp = "[]" and inp' = "[]" and inpc = "[]" and inpe = "[]" and v = 0 and t = 0]
  have "uart_out s' = uart_out reset_state @ ''*OK'' @ [CHR 0x0A] \<and>
        tx_armed s' = tx_armed reset_state"
    by simp
  then have "uart_out s' = ''*OK'' @ [CHR 0x0A] \<and> tx_armed s' = 0"
    by (simp add: reset_state_def)
  with 1 2 3 4 r e show ?thesis by blast
qed

subsection \<open>The hex-byte reader and the letter F\<close>

lemma hexval_iff:
  "hexval c \<noteq> None \<longleftrightarrow>
     (ch CHR ''0'' \<le> c \<and> c \<le> ch CHR ''9'') \<or> (ch CHR ''a'' \<le> c \<and> c \<le> ch CHR ''f'') \<or>
     (ch CHR ''A'' \<le> c \<and> c \<le> ch CHR ''E'')"
proof -
  have "c < 70 \<longleftrightarrow> c \<le> 69"
    by (auto simp: word_less_nat_alt word_le_nat_alt)
  then show ?thesis by (auto simp: hexval_def ch_codes)
qed

lemma hexval_F: "hexval (ch CHR ''F'') = None"
  by (simp add: hexval_def ch_codes)

lemma hexval_f: "hexval (ch CHR ''f'') = Some 15"
  by (simp add: hexval_def ch_codes)

lemma getsbyte_first: "hexval c = None \<Longrightarrow> getsbyte (c # inp) = (c, 0, inp)"
  by (simp add: getsbyte_def getsbyte_from.simps [of 0] uart_recv_def)

lemma getsbyte_second:
  "hexval h = Some v \<Longrightarrow> hexval c = None \<Longrightarrow> getsbyte (h # c # inp) = (c, push_bit 4 v, inp)"
  by (simp add: getsbyte_def getsbyte_from.simps [of 0] getsbyte_from.simps [of "Suc 0"]
      uart_recv_def)

lemma getsbyte_pair:
  "hexval h = Some v \<Longrightarrow> hexval l = Some w \<Longrightarrow>
   getsbyte (h # l # inp) = (0, push_bit 4 v OR w, inp)"
  by (simp add: getsbyte_def getsbyte_from.simps [of 0] getsbyte_from.simps [of "Suc 0"]
      getsbyte_from.simps [of "Suc (Suc 0)"] uart_recv_def)

lemma payload_stops:
  assumes "getsbyte inp = (ch CHR ''F'', v, inp')"
  shows "m_command oa ob L_data s inp =
           Some (s\<lparr>rc_byte := v, rc_b := ch CHR ''F'', rc_err := ch CHR ''F''\<rparr>, inp')"
  using assms
  by (subst m_command.simps(3), subst m_command.simps(2)) (simp add: ch_codes)

lemma silent_run:
  "map_option (\<lambda>si. (uart_out (fst si), rc_err (fst si), rc_state (fst si), snd si))
     (cr_receive_cmd 1 2 reset_state (line ''MA#0F''))
   = Some ([], 0, 0, [])"
  by code_simp

text \<open>
  Claim C9 as stated: a command line with a hex pair that contains \<^verbatim>\<open>F\<close> fails at that
  character with an error reply. The pair fails wherever it stands, but an error reply is
  printed only when it stands in the payload: after \<^verbatim>\<open>#\<close>, \<^verbatim>\<open>!\<close> or \<^verbatim>\<open>*\<close> the parser
  goes to \<^verbatim>\<open>skipline\<close> without an error code, and the command \<^verbatim>\<open>MA#0F\<close> is dropped with no
  reply at all.
\<close>

theorem upper_F_after_hash_gets_no_reply:
  "\<exists>s'. cr_receive_cmd 1 2 reset_state (line ''MA#0F'') = Some (s', []) \<and>
        uart_out s' = [] \<and> rc_err s' = 0 \<and> rc_state s' = 0"
  using silent_run by (cases "cr_receive_cmd 1 2 reset_state (line ''MA#0F'')") auto

text \<open>
  Claim C9, amended: the hex-byte reader accepts the digits \<^verbatim>\<open>0\<close> to \<^verbatim>\<open>9\<close>, \<^verbatim>\<open>a\<close> to \<^verbatim>\<open>f\<close> and
  \<^verbatim>\<open>A\<close> to \<^verbatim>\<open>E\<close> and no other character, so it rejects the upper-case \<^verbatim>\<open>F\<close>: a pair with
  \<^verbatim>\<open>F\<close> in either place makes it return \<^verbatim>\<open>F\<close>, where the same pair with \<^verbatim>\<open>f\<close> is read as a
  byte. In the payload of an \<^verbatim>\<open>M\<close> command parsing then fails at that character with the
  error code of \<^verbatim>\<open>F\<close>, and a command that ends with that error code is answered by the
  line \<^verbatim>\<open>!70\<close> and not transmitted.
\<close>

theorem hex_reader_rejects_upper_F:
  "(hexval c \<noteq> None \<longleftrightarrow>
      (ch CHR ''0'' \<le> c \<and> c \<le> ch CHR ''9'') \<or> (ch CHR ''a'' \<le> c \<and> c \<le> ch CHR ''f'') \<or>
      (ch CHR ''A'' \<le> c \<and> c \<le> ch CHR ''E'')) \<and>
   getsbyte (ch CHR ''F'' # inp) = (ch CHR ''F'', 0, inp) \<and>
   (hexval h = Some v \<longrightarrow>
      getsbyte (h # ch CHR ''F'' # inp) = (ch CHR ''F'', push_bit 4 v, inp) \<and>
      getsbyte (h # ch CHR ''f'' # inp) = (0, push_bit 4 v OR 15, inp) \<and>
      getsbyte (ch CHR ''f'' # h # inp) = (0, 0xf0 OR v, inp)) \<and>
   m_command oa ob L_data s (ch CHR ''F'' # inp) =
      Some (s\<lparr>rc_byte := 0, rc_b := ch CHR ''F'', rc_err := ch CHR ''F''\<rparr>, inp) \<and>
   (hexval h = Some v \<longrightarrow>
      m_command oa ob L_data s (h # ch CHR ''F'' # inp) =
        Some (s\<lparr>rc_byte := push_bit 4 v, rc_b := ch CHR ''F'', rc_err := ch CHR ''F''\<rparr>, inp)) \<and>
   (cr_receive_cmd oa ob s (ch CHR ''M'' # rest) = Some (s', inp') \<and> rc_err s' = ch CHR ''F'' \<longrightarrow>
      uart_out s' = uart_out s @ ''!70'' @ [CHR 0x0A] \<and> tx_armed s' = tx_armed s)"
proof (intro conjI impI)
  show "hexval c \<noteq> None \<longleftrightarrow>
      (ch CHR ''0'' \<le> c \<and> c \<le> ch CHR ''9'') \<or> (ch CHR ''a'' \<le> c \<and> c \<le> ch CHR ''f'') \<or>
      (ch CHR ''A'' \<le> c \<and> c \<le> ch CHR ''E'')"
    by (rule hexval_iff)
  show "getsbyte (ch CHR ''F'' # inp) = (ch CHR ''F'', 0, inp)"
    by (rule getsbyte_first [OF hexval_F])
  show "m_command oa ob L_data s (ch CHR ''F'' # inp) =
      Some (s\<lparr>rc_byte := 0, rc_b := ch CHR ''F'', rc_err := ch CHR ''F''\<rparr>, inp)"
    by (rule payload_stops [OF getsbyte_first [OF hexval_F]])
next
  assume h: "hexval h = Some v"
  show "getsbyte (h # ch CHR ''F'' # inp) = (ch CHR ''F'', push_bit 4 v, inp)"
    by (rule getsbyte_second [OF h hexval_F])
  show "getsbyte (h # ch CHR ''f'' # inp) = (0, push_bit 4 v OR 15, inp)"
    by (rule getsbyte_pair [OF h hexval_f])
  show "getsbyte (ch CHR ''f'' # h # inp) = (0, 0xf0 OR v, inp)"
    using getsbyte_pair [OF hexval_f h, of inp] by simp
next
  assume h: "hexval h = Some v"
  show "m_command oa ob L_data s (h # ch CHR ''F'' # inp) =
        Some (s\<lparr>rc_byte := push_bit 4 v, rc_b := ch CHR ''F'', rc_err := ch CHR ''F''\<rparr>, inp)"
    by (rule payload_stops [OF getsbyte_second [OF h hexval_F]])
next
  assume a: "cr_receive_cmd oa ob s (ch CHR ''M'' # rest) = Some (s', inp') \<and>
             rc_err s' = ch CHR ''F''"
  then have e: "rc_err s' = 70" by (simp add: ch_codes)
  note o = m_line_outcome [of oa ob s rest s' inp']
  from a o e show "uart_out s' = uart_out s @ ''!70'' @ [CHR 0x0A]"
    by (simp add: reply_F)
  from a o e show "tx_armed s' = tx_armed s" by auto
qed

lemma payload_F_run:
  "map_option (\<lambda>si. (uart_out (fst si), tx_armed (fst si), rc_err (fst si), snd si))
     (cr_receive_cmd 1 2 reset_state (line ''MA:0F*54''))
   = Some (''!70'' @ [CHR 0x0A], 0, 70, [])"
  by code_simp

lemma payload_f_run:
  "map_option (\<lambda>si. (uart_out (fst si), tx_armed (fst si), rc_err (fst si), snd si))
     (cr_receive_cmd 1 2 reset_state (line ''MA:0f#08*6c''))
   = Some (''*OK'' @ [CHR 0x0A], 0, 0, [])"
  by code_simp

theorem hex_reader_rejects_upper_F_witness:
  "hexval (ch CHR ''0'') = Some 0 \<and>
   getsbyte (line ''0F'') = (ch CHR ''F'', 0, [0x0A]) \<and>
   getsbyte (line ''0f'') = (0, 0x0f, [0x0A]) \<and>
   m_command 1 2 L_data reset_state (line ''0F'') =
     Some (reset_state\<lparr>rc_byte := 0, rc_b := ch CHR ''F'', rc_err := ch CHR ''F''\<rparr>, [0x0A]) \<and>
   (\<exists>s'. cr_receive_cmd 1 2 reset_state (line ''MA:0F*54'') = Some (s', []) \<and>
         rc_err s' = ch CHR ''F'' \<and> uart_out s' = ''!70'' @ [CHR 0x0A] \<and> tx_armed s' = 0) \<and>
   (\<exists>s'. cr_receive_cmd 1 2 reset_state (line ''MA:0f#08*6c'') = Some (s', []) \<and>
         uart_out s' = ''*OK'' @ [CHR 0x0A])"
proof -
  have h: "hexval (ch CHR ''0'') = Some 0" by (simp add: hexval_def ch_codes)
  have l: "line ''0F'' = ch CHR ''0'' # ch CHR ''F'' # [0x0A]"
          "line ''0f'' = ch CHR ''0'' # ch CHR ''f'' # [0x0A]"
          "line ''MA:0F*54'' = ch CHR ''M'' # line ''A:0F*54''"
    by (simp_all add: line_def)
  note t = hex_reader_rejects_upper_F [where h = "ch CHR ''0''" and v = 0 and inp = "[0x0A]"
      and oa = 1 and ob = 2 and s = reset_state and rest = "line ''A:0F*54''"]
  from t h l have 1: "getsbyte (line ''0F'') = (ch CHR ''F'', 0, [0x0A])"
    and 2: "getsbyte (line ''0f'') = (0, 0x0f, [0x0A])"
    and 3: "m_command 1 2 L_data reset_state (line ''0F'') =
     Some (reset_state\<lparr>rc_byte := 0, rc_b := ch CHR ''F'', rc_err := ch CHR ''F''\<rparr>, [0x0A])"
    by simp_all
  from payload_F_run obtain s' where
    r: "cr_receive_cmd 1 2 reset_state (line ''MA:0F*54'') = Some (s', [])"
    and e: "rc_err s' = ch CHR ''F''"
    by (cases "cr_receive_cmd 1 2 reset_state (line ''MA:0F*54'')") (auto simp: ch_codes)
  from r l have "cr_receive_cmd 1 2 reset_state (ch CHR ''M'' # line ''A:0F*54'') = Some (s', [])"
    by simp
  with e t [where s' = s' and inp' = "[]"]
  have "uart_out s' = uart_out reset_state @ ''!70'' @ [CHR 0x0A] \<and>
        tx_armed s' = tx_armed reset_state"
    by blast
  then have 4: "uart_out s' = ''!70'' @ [CHR 0x0A] \<and> tx_armed s' = 0"
    by (simp add: reset_state_def)
  from payload_f_run have 5:
    "\<exists>s'. cr_receive_cmd 1 2 reset_state (line ''MA:0f#08*6c'') = Some (s', []) \<and>
          uart_out s' = ''*OK'' @ [CHR 0x0A]"
    by (cases "cr_receive_cmd 1 2 reset_state (line ''MA:0f#08*6c'')") auto
  from h 1 2 3 4 5 r e show ?thesis by blast
qed

subsection \<open>The longest message a command can transmit\<close>

lemma long_count:
  assumes "\<not> (b + 1 \<le> (16 :: u8))"
  shows "17 \<le> unat b + 1 \<and> unat b + 1 \<le> 255"
proof (cases "b = 255")
  case True
  with assms show ?thesis by simp
next
  case False
  have "unat b \<noteq> 255"
  proof
    assume "unat b = 255"
    then have "of_nat (unat b) = (of_nat 255 :: u8)" by simp
    then have "b = 255" by simp
    with False show False by simp
  qed
  with unsigned_less [of b, where 'a = nat] have lt: "unat b < 255" by simp
  then have "unat (b + 1) = unat b + 1" by (simp add: unat_word_ariths)
  with assms lt show ?thesis by (simp add: word_le_nat_alt)
qed

lemma transmit_message_wrap:
  assumes "bcount s = 0xff"
  shows "\<exists>s1. transmit_message oa ob s = Some s1 \<and> msg_end s1 = 0 \<and> msg_end s1 \<le> 16 \<and>
              tx_armed s1 = tx_armed s"
  using assms by (simp add: transmit_message_def Let_def)

lemma declared_full_run:
  "map_option (\<lambda>si. (uart_out (fst si), tx_armed (fst si), bcount (fst si), rc_state (fst si), snd si))
     (cr_receive_cmd 1 2 reset_state (line ''MA!04#ff:000000*58''))
   = Some (''*OK'' @ [CHR 0x0A], 3, 0x17, 1, [])"
  by code_simp

text \<open>
  Claim C10 as stated: a checksum-valid command whose declared bit count is 0xff is
  never transmitted. The trigger tests the bit count the parser holds at the checksum
  token: the command \<^verbatim>\<open>MA!04#ff:000000*58\<close> declares 0xff, its three payload bytes add 24
  pulses, the 8-bit count wraps to 0x17, \<^verbatim>\<open>msg_end\<close> is 24 and the message is
  transmitted, three times.
\<close>

theorem declared_0xff_before_payload_is_transmitted:
  "\<exists>s'. cr_receive_cmd 1 2 reset_state (line ''MA!04#ff:000000*58'') = Some (s', []) \<and>
        rc_state s' \<noteq> 0 \<and> uart_out s' = ''*OK'' @ [CHR 0x0A] \<and> bcount s' = 0x17 \<and>
        tx_armed reset_state = 0 \<and> tx_armed s' = 3"
  using declared_full_run
  by (cases "cr_receive_cmd 1 2 reset_state (line ''MA!04#ff:000000*58'')")
     (auto simp: reset_state_def)

text \<open>
  Claim C10, amended: for every checksum-valid inbound \<^verbatim>\<open>M\<close> command that reaches the
  checksum token with the bit count 0xff, which is the declared one when the \<^verbatim>\<open>#\<close> token
  is the last before the checksum token, as in \<^verbatim>\<open>M<type>#ff*54\<close>, the transmit trigger
  computes \<^verbatim>\<open>msg_end = (0xff + 1) mod 256 = 0\<close>, which passes the test \<^verbatim>\<open>msg_end <= 16\<close>,
  so the transmit is skipped without a word and the reply is \<^verbatim>\<open>*OK\<close>. Hence no inbound
  command ever transmits a full ring of 256 slots: a command that does transmit has a
  range of 17 to 255 slots, the sentinel included.
\<close>

theorem full_ring_never_transmitted:
  "(bcount s = 0xff \<longrightarrow>
      (\<exists>s1. transmit_message oa ob s = Some s1 \<and> msg_end s1 = 0 \<and> msg_end s1 \<le> 16 \<and>
            tx_armed s1 = tx_armed s)) \<and>
   (rc_b s = ch CHR ''#'' \<and> getsbyte inp = (0, 0xff, ch CHR ''*'' # inpc) \<and>
    getsbyte inpc = (0, rc_chk s + 0xff, inpe) \<longrightarrow>
      (\<exists>s1. m_command oa ob L_newkey s inp = Some (s1, inpe) \<and>
            rc_state s1 = rc_state s + 1 \<and> rc_err s1 = rc_err s \<and> bcount s1 = 0xff \<and>
            msg_end s1 = 0 \<and> tx_armed s1 = tx_armed s)) \<and>
   ((t = ch CHR ''A'' \<or> t = ch CHR ''M'' \<or> t = ch CHR ''P'') \<and>
    getsbyte inp = (0, 0xff, ch CHR ''*'' # inpc) \<and> getsbyte inpc = (0, 0x54, inpe) \<longrightarrow>
      (\<exists>s1 r. cr_receive_cmd oa ob s (ch CHR ''M'' # t # ch CHR ''#'' # inp) = Some (s1, r) \<and>
              bcount s1 = 0xff \<and> uart_out s1 = uart_out s @ ''*OK'' @ [CHR 0x0A] \<and>
              tx_armed s1 = tx_armed s)) \<and>
   (cr_receive_cmd oa ob s (ch CHR ''M'' # rest) = Some (s', inp') \<and> rc_state s' \<noteq> 0 \<and>
    bcount s' = 0xff \<longrightarrow>
      uart_out s' = uart_out s @ ''*OK'' @ [CHR 0x0A] \<and> tx_armed s' = tx_armed s) \<and>
   (cr_receive_cmd oa ob s (ch CHR ''M'' # rest) = Some (s', inp') \<and>
    tx_armed s' \<noteq> tx_armed s \<longrightarrow>
      17 \<le> unat (bcount s') + 1 \<and> unat (bcount s') + 1 \<le> 255)"
proof (intro conjI impI)
  assume "bcount s = 0xff"
  then show "\<exists>s1. transmit_message oa ob s = Some s1 \<and> msg_end s1 = 0 \<and> msg_end s1 \<le> 16 \<and>
            tx_armed s1 = tx_armed s"
    by (rule transmit_message_wrap)
next
  assume a: "rc_b s = ch CHR ''#'' \<and> getsbyte inp = (0, 0xff, ch CHR ''*'' # inpc) \<and>
    getsbyte inpc = (0, rc_chk s + 0xff, inpe)"
  have "(0xff :: u8) + 1 \<le> 16" by simp
  with a declared_short [of s inp "0xff" inpc inpe oa ob]
  show "\<exists>s1. m_command oa ob L_newkey s inp = Some (s1, inpe) \<and>
            rc_state s1 = rc_state s + 1 \<and> rc_err s1 = rc_err s \<and> bcount s1 = 0xff \<and>
            msg_end s1 = 0 \<and> tx_armed s1 = tx_armed s"
    by auto
next
  assume a: "(t = ch CHR ''A'' \<or> t = ch CHR ''M'' \<or> t = ch CHR ''P'') \<and>
    getsbyte inp = (0, 0xff, ch CHR ''*'' # inpc) \<and> getsbyte inpc = (0, 0x54, inpe)"
  have "(0xff :: u8) + 1 \<le> 16" "(0x55 :: u8) + 0xff = 0x54" by simp_all
  with a declared_short_command [of t inp "0xff" inpc inpe oa ob s]
  show "\<exists>s1 r. cr_receive_cmd oa ob s (ch CHR ''M'' # t # ch CHR ''#'' # inp) = Some (s1, r) \<and>
              bcount s1 = 0xff \<and> uart_out s1 = uart_out s @ ''*OK'' @ [CHR 0x0A] \<and>
              tx_armed s1 = tx_armed s"
    by auto
next
  assume a: "cr_receive_cmd oa ob s (ch CHR ''M'' # rest) = Some (s', inp') \<and> rc_state s' \<noteq> 0 \<and>
    bcount s' = 0xff"
  then have "bcount s' + 1 \<le> 16" by simp
  with a accepted_short [of oa ob s rest s' inp']
  show "uart_out s' = uart_out s @ ''*OK'' @ [CHR 0x0A]" and "tx_armed s' = tx_armed s"
    by blast+
next
  assume a: "cr_receive_cmd oa ob s (ch CHR ''M'' # rest) = Some (s', inp') \<and>
    tx_armed s' \<noteq> tx_armed s"
  with m_line_outcome [of oa ob s rest s' inp'] have "\<not> (bcount s' + 1 \<le> 16)"
    by auto
  then show "17 \<le> unat (bcount s') + 1" and "unat (bcount s') + 1 \<le> 255"
    using long_count by simp_all
qed

lemma wrap_run:
  "map_option (\<lambda>si. (uart_out (fst si), tx_armed (fst si), bcount (fst si), rc_state (fst si), snd si))
     (cr_receive_cmd 1 2 reset_state (line ''MP#ff*54''))
   = Some (''*OK'' @ [CHR 0x0A], 0, 0xff, 1, [])"
  by code_simp

theorem full_ring_never_transmitted_witness:
  "(\<exists>s1. transmit_message 1 2 (reset_state\<lparr>bcount := 0xff\<rparr>) = Some s1 \<and> msg_end s1 = 0 \<and>
         tx_armed s1 = 0) \<and>
   (\<exists>s1. m_command 1 2 L_newkey (reset_state\<lparr>rc_b := ch CHR ''#'', rc_chk := 0x55\<rparr>)
           (line ''ff*54'') = Some (s1, [0x0A]) \<and>
         rc_state s1 = 1 \<and> bcount s1 = 0xff \<and> msg_end s1 = 0 \<and> tx_armed s1 = 0) \<and>
   (\<exists>s1 r. cr_receive_cmd 1 2 reset_state (line ''MM#ff*54'') = Some (s1, r) \<and>
         bcount s1 = 0xff \<and> uart_out s1 = ''*OK'' @ [CHR 0x0A] \<and> tx_armed s1 = 0) \<and>
   (\<exists>s'. cr_receive_cmd 1 2 reset_state (line ''MP#ff*54'') = Some (s', []) \<and>
         rc_state s' \<noteq> 0 \<and> bcount s' = 0xff \<and>
         uart_out s' = ''*OK'' @ [CHR 0x0A] \<and> tx_armed s' = 0) \<and>
   (\<exists>s'. cr_receive_cmd 1 2 reset_state (line ''MA!04:0000#10*69'') = Some (s', []) \<and>
         tx_armed s' \<noteq> tx_armed reset_state \<and>
         17 \<le> unat (bcount s') + 1 \<and> unat (bcount s') + 1 \<le> 255)"
proof -
  have b: "bcount (reset_state\<lparr>bcount := 0xff\<rparr>) = 0xff" by simp
  from b full_ring_never_transmitted [where s = "reset_state\<lparr>bcount := 0xff\<rparr>" and oa = 1
      and ob = 2 and rest = "[]" and s' = reset_state and inp' = "[]" and inp = "[]"
      and inpc = "[]" and inpe = "[]" and t = 0, THEN conjunct1]
  have "\<exists>s1. transmit_message 1 2 (reset_state\<lparr>bcount := 0xff\<rparr>) = Some s1 \<and> msg_end s1 = 0 \<and>
             msg_end s1 \<le> 16 \<and> tx_armed s1 = tx_armed (reset_state\<lparr>bcount := 0xff\<rparr>)"
    by blast
  then have 1: "\<exists>s1. transmit_message 1 2 (reset_state\<lparr>bcount := 0xff\<rparr>) = Some s1 \<and>
                    msg_end s1 = 0 \<and> tx_armed s1 = 0"
    by (auto simp: reset_state_def)
  let ?k = "reset_state\<lparr>rc_b := ch CHR ''#'', rc_chk := 0x55\<rparr>"
  have g: "rc_b ?k = ch CHR ''#'' \<and>
           getsbyte (line ''ff*54'') = (0, 0xff, ch CHR ''*'' # line ''54'') \<and>
           getsbyte (line ''54'') = (0, rc_chk ?k + 0xff, [0x0A])"
    by code_simp
  from g full_ring_never_transmitted [where s = ?k and oa = 1 and ob = 2
      and inp = "line ''ff*54''" and inpc = "line ''54''" and inpe = "[0x0A]"
      and rest = "[]" and s' = reset_state and inp' = "[]" and t = 0,
      THEN conjunct2, THEN conjunct1]
  have "\<exists>s1. m_command 1 2 L_newkey ?k (line ''ff*54'') = Some (s1, [0x0A]) \<and>
            rc_state s1 = rc_state ?k + 1 \<and> rc_err s1 = rc_err ?k \<and> bcount s1 = 0xff \<and>
            msg_end s1 = 0 \<and> tx_armed s1 = tx_armed ?k"
    by blast
  then have 2: "\<exists>s1. m_command 1 2 L_newkey ?k (line ''ff*54'') = Some (s1, [0x0A]) \<and>
         rc_state s1 = 1 \<and> bcount s1 = 0xff \<and> msg_end s1 = 0 \<and> tx_armed s1 = 0"
    by (auto simp: reset_state_def)
  have h: "(ch CHR ''M'' = ch CHR ''A'' \<or> ch CHR ''M'' = ch CHR ''M'' \<or> ch CHR ''M'' = ch CHR ''P'') \<and>
           getsbyte (line ''ff*54'') = (0, 0xff, ch CHR ''*'' # line ''54'') \<and>
           getsbyte (line ''54'') = (0, 0x54, [0x0A])"
    by code_simp
  have l: "line ''MM#ff*54'' = ch CHR ''M'' # ch CHR ''M'' # ch CHR ''#'' # line ''ff*54''"
          "line ''MP#ff*54'' = ch CHR ''M'' # line ''P#ff*54''"
          "line ''MA!04:0000#10*69'' = ch CHR ''M'' # line ''A!04:0000#10*69''"
    by (simp_all add: line_def)
  from h full_ring_never_transmitted [where s = reset_state and oa = 1 and ob = 2
      and inp = "line ''ff*54''" and inpc = "line ''54''" and inpe = "[0x0A]"
      and t = "ch CHR ''M''" and rest = "[]" and s' = reset_state and inp' = "[]",
      THEN conjunct2, THEN conjunct2, THEN conjunct1]
  have "\<exists>s1 r. cr_receive_cmd 1 2 reset_state
                  (ch CHR ''M'' # ch CHR ''M'' # ch CHR ''#'' # line ''ff*54'') = Some (s1, r) \<and>
              bcount s1 = 0xff \<and> uart_out s1 = uart_out reset_state @ ''*OK'' @ [CHR 0x0A] \<and>
              tx_armed s1 = tx_armed reset_state"
    by blast
  then have 3: "\<exists>s1 r. cr_receive_cmd 1 2 reset_state (line ''MM#ff*54'') = Some (s1, r) \<and>
         bcount s1 = 0xff \<and> uart_out s1 = ''*OK'' @ [CHR 0x0A] \<and> tx_armed s1 = 0"
    by (simp add: l reset_state_def)
  from wrap_run obtain s' where
    r: "cr_receive_cmd 1 2 reset_state (line ''MP#ff*54'') = Some (s', [])"
    and e: "rc_state s' \<noteq> 0" "bcount s' = 0xff"
    by (cases "cr_receive_cmd 1 2 reset_state (line ''MP#ff*54'')") auto
  from r l have "cr_receive_cmd 1 2 reset_state (ch CHR ''M'' # line ''P#ff*54'') = Some (s', [])"
    by simp
  with e full_ring_never_transmitted [where s = reset_state and oa = 1 and ob = 2
      and rest = "line ''P#ff*54''" and s' = s' and inp' = "[]" and inp = "[]"
      and inpc = "[]" and inpe = "[]" and t = 0]
  have "uart_out s' = uart_out reset_state @ ''*OK'' @ [CHR 0x0A] \<and>
        tx_armed s' = tx_armed reset_state"
    by simp
  then have 4: "uart_out s' = ''*OK'' @ [CHR 0x0A] \<and> tx_armed s' = 0"
    by (simp add: reset_state_def)
  from transmit_run obtain t' where
    rt: "cr_receive_cmd 1 2 reset_state (line ''MA!04:0000#10*69'') = Some (t', [])"
    and et: "tx_armed t' \<noteq> tx_armed reset_state"
    by (cases "cr_receive_cmd 1 2 reset_state (line ''MA!04:0000#10*69'')")
       (auto simp: reset_state_def)
  from rt l have "cr_receive_cmd 1 2 reset_state (ch CHR ''M'' # line ''A!04:0000#10*69'') =
      Some (t', [])"
    by simp
  with et full_ring_never_transmitted [where s = reset_state and oa = 1 and ob = 2
      and rest = "line ''A!04:0000#10*69''" and s' = t' and inp' = "[]" and inp = "[]"
      and inpc = "[]" and inpe = "[]" and t = 0]
  have 5: "17 \<le> unat (bcount t') + 1 \<and> unat (bcount t') + 1 \<le> 255"
    by blast
  from 1 2 3 4 5 r e rt et show ?thesis by blast
qed

end
